theory Spec2Isabelle
  imports Complex_Main
begin

section \<open>The rows virtualizer of the data grid\<close>

text \<open>
  A shallow embedding of \<^verbatim>\<open>src/ts/DataGrid/DataGrid2/Actions/RowsVirtualizer.ts\<close>.
  JavaScript numbers are modelled exactly: pixel heights and row indices as \<open>int\<close>
  (DOM \<^verbatim>\<open>offsetHeight\<close> values are integers, \<^verbatim>\<open>Math.floor\<close> and
  \<^verbatim>\<open>Math.ceil\<close> return integers; integers below \<open>2 ^ 53\<close> are exact as doubles), the
  scroll offset as a \<open>real\<close> that holds a double. The cursor is the floor of the exact
  quotient of the scroll offset by the default row height; the height of the row at the
  cursor, the other computation on fractions, rounds every operation to the nearest double
  (\<open>roundDouble\<close>). Where JavaScript would continue with \<^verbatim>\<open>NaN\<close> or
  \<^verbatim>\<open>Infinity\<close> (a division by a default row height of \<open>0\<close>) the model stops with
  \<open>NotFinite\<close>. A thrown exception is the \<open>Inl\<close> branch of a sum, and the state a
  throwing call leaves behind is not modelled. The methods \<^verbatim>\<open>initialRender\<close>,
  \<^verbatim>\<open>scroll\<close>, \<^verbatim>\<open>renderRows\<close> and \<^verbatim>\<open>adjustRowHeights\<close> are embedded;
  \<^verbatim>\<open>getDefaultRowHeight\<close> is the first argument of the constructor.
\<close>

datatype error =
    OutOfRangeError   \<comment> \<open>the row handle's constructor rejects the index\<close>
  | RowUndefined      \<comment> \<open>TypeError: a property of \<^verbatim>\<open>rows[i]\<close> read where it is undefined\<close>
  | CellUndefined     \<comment> \<open>TypeError: a property of \<^verbatim>\<open>row.cells[0]\<close> read where it is undefined\<close>
  | NotFinite         \<comment> \<open>JavaScript goes on with NaN or Infinity; outside the model\<close>

subsection \<open>Rows and cells\<close>

text \<open>
  A cell's \<^verbatim>\<open>htmlElement.style.transform\<close>: \<open>None\<close> is the empty string,
  \<open>Some y\<close> is \<^verbatim>\<open>translateY(ypx)\<close>.
\<close>

record cell =
  cellTransform :: "int option"

text \<open>
  A \<^verbatim>\<open>DataGridRow\<close>. \<open>rid\<close> is the identity of the object (every \<^verbatim>\<open>new\<close>
  takes a fresh one); \<open>styleHeight\<close> is \<^verbatim>\<open>htmlElement.style.height\<close> in px and
  \<open>styleTransform\<close> is \<^verbatim>\<open>htmlElement.style.transform\<close>, both \<open>None\<close> for the
  empty string.
\<close>

record row =
  rid :: nat
  index :: int
  cells :: "cell list"
  styleHeight :: "int option"
  styleTransform :: "int option"

text \<open>
  The virtualizer together with the parts of its viewport it reads and writes:
  \<open>rows\<close> is \<^verbatim>\<open>viewport.rows\<close>, \<open>offsetHeight\<close> and \<open>scrollTop\<close> belong to
  \<^verbatim>\<open>viewport.tbodyElement\<close>, \<open>rowCount\<close> is \<^verbatim>\<open>viewport.dataTable.getRowCount()\<close>,
  \<open>columns\<close> the number of columns of the viewport. \<open>nextId\<close> numbers the row objects
  and \<open>destroyed\<close> logs the identities on which \<^verbatim>\<open>destroy()\<close> was called. The order
  of the body's child nodes is not tracked.
\<close>

record state =
  defaultRowHeight :: int
  rowCursor :: int
  buffer :: int
  rows :: "row list"
  offsetHeight :: int
  scrollTop :: real
  rowCount :: int
  columns :: nat
  nextId :: nat
  destroyed :: "nat list"

text \<open>
  The rendering surface is a parameter. It answers the measurements the code asks the DOM
  for, each from the row as it is styled at the time of the read:
  \<open>cellOffsetHeight\<close> is \<^verbatim>\<open>row.cells[0].htmlElement.offsetHeight\<close>,
  \<open>rowOffsetHeight\<close> is \<^verbatim>\<open>row.htmlElement.offsetHeight\<close>,
  \<open>defaultTopOffset\<close> is \<^verbatim>\<open>row.getDefaultTopOffset()\<close>,
  \<open>viewportHeight\<close> is the body height that \<^verbatim>\<open>viewport.reflow()\<close> sets, and
  \<open>reportedScrollTop\<close> is the scroll offset the body reports once the rows have been
  re-rendered and re-measured, given those rows and the offset it held before (the last
  read of \<^verbatim>\<open>target.scrollTop\<close> in \<^verbatim>\<open>scroll\<close>). An assignment to
  \<^verbatim>\<open>target.scrollTop\<close> stores the value assigned.
\<close>

record surface =
  cellOffsetHeight :: "row \<Rightarrow> int"
  rowOffsetHeight :: "row \<Rightarrow> int"
  defaultTopOffset :: "row \<Rightarrow> int"
  viewportHeight :: int
  reportedScrollTop :: "row list \<Rightarrow> real \<Rightarrow> real"

subsection \<open>The constructor\<close>

text \<open>
  \<^verbatim>\<open>constructor(viewport)\<close>: the default row height is measured once, the buffer
  comes from the options, the cursor starts at \<open>0\<close>; the viewport has no rows yet.
\<close>

definition RowsVirtualizer :: "int \<Rightarrow> int \<Rightarrow> int \<Rightarrow> nat \<Rightarrow> int \<Rightarrow> real \<Rightarrow> state" where
  "RowsVirtualizer measuredRowHeight rowBufferSize count cols bodyHeight offset =
     \<lparr> defaultRowHeight = measuredRowHeight, rowCursor = 0, buffer = rowBufferSize,
       rows = [], offsetHeight = bodyHeight, scrollTop = offset, rowCount = count,
       columns = cols, nextId = 0, destroyed = [] \<rparr>"

subsection \<open>Row handles\<close>

text \<open>
  Modelled from the spec: \<^verbatim>\<open>DataGridRow\<close> is not among the sources. Its constructor
  \<^verbatim>\<open>construct(viewport, index)\<close> "fails with OutOfRangeError if index is outside
  [0, totalRowCount)"; the handle starts without cells and without style overrides.
\<close>

definition new_DataGridRow :: "state \<Rightarrow> int \<Rightarrow> error + (row \<times> state)" where
  "new_DataGridRow vp i =
     (if 0 \<le> i \<and> i < rowCount vp
      then Inr (\<lparr> rid = nextId vp, index = i, cells = [],
                  styleHeight = None, styleTransform = None \<rparr>,
                vp\<lparr> nextId := Suc (nextId vp) \<rparr>)
      else Inl OutOfRangeError)"

text \<open>
  Modelled from the spec: \<^verbatim>\<open>render()\<close> is the "creation of the visual
  representation; after this call, height becomes measurable". The representation is one
  cell for each column of the viewport, none of them translated.
\<close>

definition render :: "state \<Rightarrow> row \<Rightarrow> row" where
  "render vp r = r\<lparr> cells := replicate (columns vp) \<lparr> cellTransform = None \<rparr> \<rparr>"

text \<open>
  Modelled from the spec: \<^verbatim>\<open>destroy()\<close> "releases all resources"; the model logs the
  identity of the handle.
\<close>

definition destroy :: "row \<Rightarrow> state \<Rightarrow> state" where
  "destroy r vp = vp\<lparr> destroyed := destroyed vp @ [rid r] \<rparr>"

text \<open>
  Modelled from the spec: \<^verbatim>\<open>getTranslateY\<close> of the grid's utilities reads back the
  vertical offset a row was given ("that neighbor's offset"), \<open>0\<close> when it has none.
\<close>

definition getTranslateY :: "row \<Rightarrow> int" where
  "getTranslateY r = (case styleTransform r of None \<Rightarrow> 0 | Some y \<Rightarrow> y)"

subsection \<open>renderRows\<close>

text \<open>\<^verbatim>\<open>Math.ceil(vp.tbodyElement.offsetHeight / this.defaultRowHeight)\<close>\<close>

definition rowsPerPage :: "state \<Rightarrow> int" where
  "rowsPerPage s = \<lceil>real_of_int (offsetHeight s) / real_of_int (defaultRowHeight s)\<rceil>"

text \<open>The two bounds of the range, the constants \<^verbatim>\<open>from\<close> and \<^verbatim>\<open>to\<close> of the source.\<close>

definition rangeFrom :: "state \<Rightarrow> int \<Rightarrow> int" where
  "rangeFrom s cursor = min (max (cursor - buffer s) 0) (rowCount s - rowsPerPage s)"

definition rangeTo :: "state \<Rightarrow> int \<Rightarrow> row \<Rightarrow> int" where
  "rangeTo s cursor lastRow = min (cursor + rowsPerPage s + buffer s) (index lastRow - 1)"

text \<open>
  \<^verbatim>\<open>for (let i = from; i <= to; ++i)\<close>: construct the row, render it, push it. An
  exception of the constructor leaves the loop.
\<close>

function renderLoop :: "int \<Rightarrow> int \<Rightarrow> state \<Rightarrow> error + state" where
  "renderLoop i to s =
     (if i \<le> to
      then (case new_DataGridRow s i of
              Inl e \<Rightarrow> Inl e
            | Inr (newRow, s') \<Rightarrow>
                renderLoop (i + 1) to (s'\<lparr> rows := rows s' @ [render s' newRow] \<rparr>))
      else Inr s)"
  by pat_completeness auto
termination
  by (relation "measure (\<lambda>(i, to, s). nat (to + 1 - i))") auto

declare renderLoop.simps [simp del]

definition renderRows :: "int \<Rightarrow> state \<Rightarrow> error + state" where
  "renderRows cursor s =
     (if defaultRowHeight s = 0 then Inl NotFinite
      else
        (case (if rows s = []
               then (case new_DataGridRow s (rowCount s - 1) of
                       Inl e \<Rightarrow> Inl e
                     | Inr (lastRow, s') \<Rightarrow> Inr (s'\<lparr> rows := rows s' @ [render s' lastRow] \<rparr>))
               else Inr s) of
           Inl e \<Rightarrow> Inl e
         | Inr s1 \<Rightarrow>
             (case rev (rows s1) of
                [] \<Rightarrow> Inl RowUndefined
              | alwaysLastRow # others \<Rightarrow>
                  (let from = rangeFrom s1 cursor;
                       to = rangeTo s1 cursor alwaysLastRow;
                       s2 = fold destroy (rev others) s1;
                       s3 = s2\<lparr> rows := [] \<rparr>
                   in case renderLoop from to s3 of
                        Inl e \<Rightarrow> Inl e
                      | Inr s4 \<Rightarrow> Inr (s4\<lparr> rows := rows s4 @ [alwaysLastRow] \<rparr>)))))"

subsection \<open>Double arithmetic\<close>

text \<open>
  A JavaScript number is an IEEE 754 binary64 value, and each arithmetic operation returns
  the exact result rounded to the nearest such value, ties to the even significand.
  \<open>floorLog2 n\<close> is the position of the leading bit of \<open>n \<ge> 1\<close>; \<open>binaryExponent x\<close> is the
  \<open>e\<close> with \<open>2 ^ e \<le> \<bar>x\<bar> < 2 ^ (e + 1)\<close>; a double with that exponent is a multiple of
  \<open>2 ^ (e - 52)\<close>, and of \<open>2 ^ (- 1074)\<close> below the normal range. Values beyond the largest
  finite double (about \<open>1.8 * 10 ^ 308\<close>) are outside the model.
\<close>

function floorLog2 :: "int \<Rightarrow> int" where
  "floorLog2 n = (if n < 2 then 0 else 1 + floorLog2 (n div 2))"
  by pat_completeness auto
termination
  by (relation "measure nat") auto

declare floorLog2.simps [simp del]

definition binaryExponent :: "real \<Rightarrow> int" where
  "binaryExponent x =
     (if 1 \<le> \<bar>x\<bar> then floorLog2 \<lfloor>\<bar>x\<bar>\<rfloor>
      else if \<lceil>1 / \<bar>x\<bar>\<rceil> < 2 then 0
      else - (1 + floorLog2 (\<lceil>1 / \<bar>x\<bar>\<rceil> - 1)))"

definition pow2 :: "int \<Rightarrow> real" where
  "pow2 e = (if 0 \<le> e then 2 ^ nat e else 1 / 2 ^ nat (- e))"

definition roundDouble :: "real \<Rightarrow> real" where
  "roundDouble x =
     (let ulp = pow2 (max (binaryExponent x) (- 1022) - 52);
          q = x / ulp;
          n = \<lfloor>q\<rfloor>;
          r = q - real_of_int n
      in real_of_int (if r < 1 / 2 then n
                      else if 1 / 2 < r then n + 1
                      else if even n then n else n + 1) * ulp)"

subsection \<open>adjustRowHeights\<close>

text \<open>
  The head of the first loop's body: the height override is removed, and when the first
  cell has a transform every cell's transform is removed.
\<close>

definition resetRow :: "row \<Rightarrow> error + row" where
  "resetRow r =
     (case cells r of
        [] \<Rightarrow> Inl CellUndefined
      | c # cs \<Rightarrow>
          Inr (r\<lparr> styleHeight := None,
                  cells := (if cellTransform c \<noteq> None
                            then map (\<lambda>c. c\<lparr> cellTransform := None \<rparr>) (cells r)
                            else cells r) \<rparr>))"

text \<open>
  One pass of the first loop's body over a row. \<open>scrollOffset\<close> is
  \<^verbatim>\<open>tbodyElement.scrollTop\<close>, taken from the state the pass starts in. In
  \<^verbatim>\<open>cellHeight - (cellHeight - defaultH) * (scrollTop / defaultH - cursor)\<close> the
  division, the inner subtraction, the product and the outer subtraction are each rounded;
  the difference of the two integer heights is exact.
\<close>

definition adjustRow :: "surface \<Rightarrow> int \<Rightarrow> int \<Rightarrow> real \<Rightarrow> row \<Rightarrow> error + row" where
  "adjustRow surf cursor defaultH scrollOffset r =
     (case resetRow r of
        Inl e \<Rightarrow> Inl e
      | Inr r0 \<Rightarrow>
          if index r0 < cursor then Inr (r0\<lparr> styleHeight := Some defaultH \<rparr>)
          else
            (let cellHeight = cellOffsetHeight surf r0;
                 r1 = r0\<lparr> styleHeight := Some cellHeight \<rparr>
             in if index r1 > cursor then Inr r1
                else if rowOffsetHeight surf r1 > defaultH
                then (if defaultH = 0 then Inl NotFinite
                      else
                        (let newHeight =
                               \<lfloor>roundDouble (real_of_int cellHeight -
                                  roundDouble (real_of_int (cellHeight - defaultH) *
                                    roundDouble (roundDouble (scrollOffset / real_of_int defaultH) -
                                                 real_of_int cursor)))\<rfloor>
                         in Inr (r1\<lparr> styleHeight := Some newHeight,
                                     cells := map (\<lambda>c. c\<lparr> cellTransform := Some (newHeight - cellHeight) \<rparr>)
                                                (cells r1) \<rparr>)))
                else Inr r1))"

fun adjustLoop :: "surface \<Rightarrow> int \<Rightarrow> int \<Rightarrow> real \<Rightarrow> row list \<Rightarrow> error + row list" where
  "adjustLoop surf cursor defaultH scrollOffset [] = Inr []"
| "adjustLoop surf cursor defaultH scrollOffset (r # rs) =
     (case adjustRow surf cursor defaultH scrollOffset r of
        Inl e \<Rightarrow> Inl e
      | Inr r' \<Rightarrow>
          (case adjustLoop surf cursor defaultH scrollOffset rs of
             Inl e \<Rightarrow> Inl e
           | Inr rs' \<Rightarrow> Inr (r' # rs')))"

text \<open>
  The second loop, \<^verbatim>\<open>for (let i = 1, iEnd = rowsLn - 1; i < iEnd; ++i)\<close>, over the rows
  after the first: \<open>prev\<close> is \<^verbatim>\<open>rows[i - 1]\<close> as it is by then, and the last row is
  left alone.
\<close>

fun translateLoop :: "surface \<Rightarrow> int \<Rightarrow> row \<Rightarrow> row list \<Rightarrow> row list" where
  "translateLoop surf translateBuffer prev [] = []"
| "translateLoop surf translateBuffer prev [lastRow] = [lastRow]"
| "translateLoop surf translateBuffer prev (r # r2 # rs) =
     (let translateBuffer' = translateBuffer + rowOffsetHeight surf prev;
          r' = r\<lparr> styleTransform := Some translateBuffer' \<rparr>
      in r' # translateLoop surf translateBuffer' r' (r2 # rs))"

definition translateRows :: "surface \<Rightarrow> int \<Rightarrow> row list \<Rightarrow> row list" where
  "translateRows surf translateBuffer rs =
     (case rs of [] \<Rightarrow> [] | r # rest \<Rightarrow> r # translateLoop surf translateBuffer r rest)"

text \<open>The offset of the last row, set when the row before it is its neighbour by index.\<close>

definition placeLastRow :: "surface \<Rightarrow> row list \<Rightarrow> row list" where
  "placeLastRow surf rs =
     (if 2 \<le> length rs
      then (let lastRow = rs ! (length rs - 1);
                preLastRow = rs ! (length rs - 2)
            in if index preLastRow = index lastRow - 1
               then butlast rs @
                      [lastRow\<lparr> styleTransform :=
                         Some (rowOffsetHeight surf preLastRow + getTranslateY preLastRow) \<rparr>]
               else rs)
      else rs)"

definition adjustRowHeights :: "surface \<Rightarrow> state \<Rightarrow> error + state" where
  "adjustRowHeights surf s =
     (case rows s of
        [] \<Rightarrow> Inl RowUndefined
      | firstRow # rest \<Rightarrow>
          (let translateBuffer = defaultTopOffset surf firstRow
           in case adjustLoop surf (rowCursor s) (defaultRowHeight s) (scrollTop s) (rows s) of
                Inl e \<Rightarrow> Inl e
              | Inr rs \<Rightarrow>
                  Inr (s\<lparr> rows := placeLastRow surf (translateRows surf translateBuffer rs) \<rparr>)))"

subsection \<open>adjustRowHeights with its reads of the rows array\<close>

text \<open>
  \<^verbatim>\<open>rows[i]\<close>: \<open>None\<close> is \<^verbatim>\<open>undefined\<close>, the value of a read outside the array.
\<close>

definition arrayGet :: "'a list \<Rightarrow> int \<Rightarrow> 'a option" where
  "arrayGet xs i = (if 0 \<le> i \<and> i < int (length xs) then Some (xs ! nat i) else None)"

text \<open>
  The same pass written with the source's counters and array reads. Each function returns
  the indices at which it evaluated \<^verbatim>\<open>rows[...]\<close>, in order, beside its outcome; a
  property read from \<^verbatim>\<open>undefined\<close> is the error \<open>RowUndefined\<close>. The rows are objects
  changed in place, which is the update of the list at their index.

  The first loop, \<^verbatim>\<open>for (let i = 0; i < rowsLn; ++i) { const row = rows[i]; ... }\<close>:
\<close>

function adjustFrom ::
  "surface \<Rightarrow> int \<Rightarrow> int \<Rightarrow> real \<Rightarrow> nat \<Rightarrow> nat \<Rightarrow> row list \<Rightarrow> int list \<times> (error + row list)" where
  "adjustFrom surf cursor defaultH scrollOffset rowsLn i rs =
     (if i < rowsLn
      then (case arrayGet rs (int i) of
              None \<Rightarrow> ([int i], Inl RowUndefined)
            | Some row \<Rightarrow>
                (case adjustRow surf cursor defaultH scrollOffset row of
                   Inl e \<Rightarrow> ([int i], Inl e)
                 | Inr row' \<Rightarrow>
                     (case adjustFrom surf cursor defaultH scrollOffset rowsLn (Suc i) (rs[i := row']) of
                        (reads, outcome) \<Rightarrow> (int i # reads, outcome))))
      else ([], Inr rs))"
  by pat_completeness auto
termination
  by (relation "measure (\<lambda>(surf, cursor, defaultH, scrollOffset, rowsLn, i, rs). rowsLn - i)") auto

declare adjustFrom.simps [simp del]

text \<open>
  The second loop, \<^verbatim>\<open>for (let i = 1, iEnd = rowsLn - 1; i < iEnd; ++i)\<close>, which reads
  \<^verbatim>\<open>rows[i - 1]\<close> and then \<^verbatim>\<open>rows[i]\<close>:
\<close>

function translateFrom ::
  "surface \<Rightarrow> int \<Rightarrow> nat \<Rightarrow> nat \<Rightarrow> row list \<Rightarrow> int list \<times> (error + row list)" where
  "translateFrom surf translateBuffer rowsLn i rs =
     (if int i < int rowsLn - 1
      then (case arrayGet rs (int i - 1) of
              None \<Rightarrow> ([int i - 1], Inl RowUndefined)
            | Some prev \<Rightarrow>
                (case arrayGet rs (int i) of
                   None \<Rightarrow> ([int i - 1, int i], Inl RowUndefined)
                 | Some r \<Rightarrow>
                     (let translateBuffer' = translateBuffer + rowOffsetHeight surf prev
                      in case translateFrom surf translateBuffer' rowsLn (Suc i)
                                (rs[i := r\<lparr> styleTransform := Some translateBuffer' \<rparr>]) of
                           (reads, outcome) \<Rightarrow> ((int i - 1) # int i # reads, outcome))))
      else ([], Inr rs))"
  by pat_completeness auto
termination
  by (relation "measure (\<lambda>(surf, translateBuffer, rowsLn, i, rs). rowsLn - i)") auto

declare translateFrom.simps [simp del]

text \<open>
  The end of the pass: \<^verbatim>\<open>rows[rowsLn - 1]\<close> and \<^verbatim>\<open>rows[rowsLn - 2]\<close> are read, then
  \<^verbatim>\<open>preLastRow && preLastRow.index === lastRow.index - 1\<close> is tested.
\<close>

definition placeLastRead :: "surface \<Rightarrow> nat \<Rightarrow> row list \<Rightarrow> int list \<times> (error + row list)" where
  "placeLastRead surf rowsLn rs =
     (let lastRow = arrayGet rs (int rowsLn - 1);
          preLastRow = arrayGet rs (int rowsLn - 2)
      in ([int rowsLn - 1, int rowsLn - 2],
          case preLastRow of
            None \<Rightarrow> Inr rs
          | Some pre \<Rightarrow>
              (case lastRow of
                 None \<Rightarrow> Inl RowUndefined
               | Some l \<Rightarrow>
                   if index pre = index l - 1
                   then Inr (rs[rowsLn - 1 :=
                               l\<lparr> styleTransform :=
                                    Some (rowOffsetHeight surf pre + getTranslateY pre) \<rparr>])
                   else Inr rs)))"

definition adjustRowHeightsReads :: "surface \<Rightarrow> state \<Rightarrow> int list \<times> (error + state)" where
  "adjustRowHeightsReads surf s =
     (let rowsLn = length (rows s)
      in case arrayGet (rows s) 0 of
           None \<Rightarrow> ([0], Inl RowUndefined)
         | Some firstRow \<Rightarrow>
             (let translateBuffer = defaultTopOffset surf firstRow
              in case adjustFrom surf (rowCursor s) (defaultRowHeight s) (scrollTop s) rowsLn 0 (rows s) of
                   (reads1, Inl e) \<Rightarrow> (0 # reads1, Inl e)
                 | (reads1, Inr rs1) \<Rightarrow>
                     (case translateFrom surf translateBuffer rowsLn 1 rs1 of
                        (reads2, Inl e) \<Rightarrow> (0 # reads1 @ reads2, Inl e)
                      | (reads2, Inr rs2) \<Rightarrow>
                          (case placeLastRead surf rowsLn rs2 of
                             (reads3, Inl e) \<Rightarrow> (0 # reads1 @ reads2 @ reads3, Inl e)
                           | (reads3, Inr rs3) \<Rightarrow>
                               (0 # reads1 @ reads2 @ reads3, Inr (s\<lparr> rows := rs3 \<rparr>))))))"

subsection \<open>initialRender and scroll\<close>

definition initialRender :: "surface \<Rightarrow> state \<Rightarrow> error + state" where
  "initialRender surf s =
     (case renderRows (rowCursor s) (s\<lparr> offsetHeight := viewportHeight surf \<rparr>) of
        Inl e \<Rightarrow> Inl e
      | Inr s1 \<Rightarrow> adjustRowHeights surf s1)"

definition scroll :: "surface \<Rightarrow> state \<Rightarrow> error + state" where
  "scroll surf s =
     (if defaultRowHeight s = 0 then Inl NotFinite
      else
        (let lastScrollTop = scrollTop s;
             newCursor = \<lfloor>scrollTop s / real_of_int (defaultRowHeight s)\<rfloor>
         in case (if rowCursor s \<noteq> newCursor then renderRows newCursor s else Inr s) of
              Inl e \<Rightarrow> Inl e
            | Inr s1 \<Rightarrow>
                (case adjustRowHeights surf (s1\<lparr> rowCursor := newCursor \<rparr>) of
                   Inl e \<Rightarrow> Inl e
                 | Inr s2 \<Rightarrow>
                     (let s3 = s2\<lparr> scrollTop := reportedScrollTop surf (rows s2) lastScrollTop \<rparr>
                      in Inr (if lastScrollTop > scrollTop s3
                              then s3\<lparr> scrollTop := lastScrollTop \<rparr>
                              else s3)))))"

subsection \<open>Runs of the engine\<close>

text \<open>
  The states the engine can be in: after \<^verbatim>\<open>initialRender()\<close> on a freshly constructed
  virtualizer, and after any \<^verbatim>\<open>scroll()\<close> that follows a move of the body to some
  offset \<open>y\<close>. Only calls that return are steps.
\<close>

inductive reachable :: "surface \<Rightarrow> state \<Rightarrow> bool" for surf :: surface where
  rendered: "initialRender surf (RowsVirtualizer d b n cols h y) = Inr s \<Longrightarrow> reachable surf s"
| scrolled: "reachable surf s \<Longrightarrow> scroll surf (s\<lparr> scrollTop := y \<rparr>) = Inr s' \<Longrightarrow> reachable surf s'"

text \<open>A scroll event on the outcome of an earlier call: the body moves to \<open>y\<close>, the handler runs.\<close>

definition thenScroll :: "surface \<Rightarrow> real \<Rightarrow> error + state \<Rightarrow> error + state" where
  "thenScroll surf y r = (case r of Inl e \<Rightarrow> Inl e | Inr s \<Rightarrow> scroll surf (s\<lparr> scrollTop := y \<rparr>))"

text \<open>What is observed of an outcome: the indices of its window, or a property of its state.\<close>

definition resultIndices :: "error + state \<Rightarrow> error + int list" where
  "resultIndices r = (case r of Inl e \<Rightarrow> Inl e | Inr s \<Rightarrow> Inr (map index (rows s)))"

definition holds :: "(state \<Rightarrow> bool) \<Rightarrow> error + state \<Rightarrow> bool" where
  "holds P r = (case r of Inl e \<Rightarrow> False | Inr s \<Rightarrow> P s)"

text \<open>The handle \<^verbatim>\<open>renderRows\<close> makes for index \<open>k\<close>: constructed with identity \<open>n\<close>, then rendered.\<close>

definition freshRow :: "state \<Rightarrow> nat \<Rightarrow> int \<Rightarrow> row" where
  "freshRow s n k =
     render s \<lparr> rid = n, index = k, cells = [], styleHeight = None, styleTransform = None \<rparr>"

text \<open>
  What every reachable state satisfies about its handles: the last one is the row
  \<open>rowCount - 1\<close>, identities are distinct and issued, the last handle was never
  destroyed, and each row has one cell for each column.
\<close>

definition handlesInv :: "state \<Rightarrow> bool" where
  "handlesInv s \<longleftrightarrow>
     defaultRowHeight s \<noteq> 0 \<and> rows s \<noteq> [] \<and>
     last (map index (rows s)) = rowCount s - 1 \<and>
     distinct (map rid (rows s)) \<and>
     (\<forall>i\<in>set (map rid (rows s)). i < nextId s) \<and>
     (\<forall>i\<in>set (destroyed s). i < nextId s) \<and>
     last (map rid (rows s)) \<notin> set (destroyed s) \<and>
     (\<forall>n\<in>set (map (\<lambda>r. length (cells r)) (rows s)). n = columns s)"

text \<open>The rows before the last are the run from \<^verbatim>\<open>from\<close> to \<^verbatim>\<open>to\<close> of the stored cursor.\<close>

definition runInv :: "state \<Rightarrow> bool" where
  "runInv s \<longleftrightarrow>
     butlast (map index (rows s)) =
       [rangeFrom s (rowCursor s)..rangeTo s (rowCursor s) (last (rows s))]"

text \<open>The fields no step of the engine writes once the first render has reflowed the body.\<close>

definition sameGeometry :: "state \<Rightarrow> state \<Rightarrow> bool" where
  "sameGeometry s s' \<longleftrightarrow>
     defaultRowHeight s' = defaultRowHeight s \<and> buffer s' = buffer s \<and>
     offsetHeight s' = offsetHeight s \<and> rowCount s' = rowCount s \<and> columns s' = columns s"

subsection \<open>The statements of the specification that the code does not meet\<close>

text \<open>
  The contiguity property as the specification words it: the indices before the anchor
  are a run \<open>from..to\<close> that contains the cursor.
\<close>

definition contiguousAroundCursor :: "state \<Rightarrow> bool" where
  "contiguousAroundCursor s =
     (let run = butlast (map index (rows s))
      in run \<noteq> [] \<and> run = [hd run..last run] \<and> hd run \<le> rowCursor s \<and> rowCursor s \<le> last run)"

text \<open>The bound on the window as the specification words it: \<open>rowsPerPage + 2 * buffer + 1\<close>.\<close>

definition withinSpecifiedBound :: "state \<Rightarrow> bool" where
  "withinSpecifiedBound s = (int (length (rows s)) \<le> rowsPerPage s + 2 * buffer s + 1)"

text \<open>
  The scroll transition in the order the specification words it: \<^verbatim>\<open>RenderRange(newCursor)\<close>,
  then \<^verbatim>\<open>ReconcileHeights()\<close>, and only then \<^verbatim>\<open>cursor = newCursor\<close>. It differs from
  \<open>scroll\<close> in the place of the cursor update alone.
\<close>

definition scroll_as_specified :: "surface \<Rightarrow> state \<Rightarrow> error + state" where
  "scroll_as_specified surf s =
     (if defaultRowHeight s = 0 then Inl NotFinite
      else
        (let lastScrollTop = scrollTop s;
             newCursor = \<lfloor>scrollTop s / real_of_int (defaultRowHeight s)\<rfloor>
         in case (if rowCursor s \<noteq> newCursor then renderRows newCursor s else Inr s) of
              Inl e \<Rightarrow> Inl e
            | Inr s1 \<Rightarrow>
                (case adjustRowHeights surf s1 of
                   Inl e \<Rightarrow> Inl e
                 | Inr s2 \<Rightarrow>
                     (let s3 = s2\<lparr> rowCursor := newCursor,
                                    scrollTop := reportedScrollTop surf (rows s2) lastScrollTop \<rparr>
                      in Inr (if lastScrollTop > scrollTop s3
                              then s3\<lparr> scrollTop := lastScrollTop \<rparr>
                              else s3)))))"

subsection \<open>The scenario of the specification\<close>

text \<open>
  A grid of 1000 rows and two columns, default row height 20, buffer 2, on a surface whose
  reflow gives the body a height of 200. Each cell measures 40 high, a row measures its
  explicit height (40 without one), and the body reports the offset it was left at.
\<close>

definition grid1000 :: state where
  "grid1000 = RowsVirtualizer 20 2 1000 2 0 0"

definition tallRows :: surface where
  "tallRows =
     \<lparr> cellOffsetHeight = (\<lambda>r. 40),
       rowOffsetHeight = (\<lambda>r. case styleHeight r of None \<Rightarrow> 40 | Some h \<Rightarrow> h),
       defaultTopOffset = (\<lambda>r. index r * 20),
       viewportHeight = 200,
       reportedScrollTop = (\<lambda>rs y. y) \<rparr>"

text \<open>The state the first render leaves the scenario in.\<close>

definition firstWindow :: state where
  "firstWindow = projr (initialRender tallRows grid1000)"

text \<open>The same surface, except that the body reports an offset 15 below the one it held.\<close>

definition sinkingBody :: surface where
  "sinkingBody = tallRows\<lparr> reportedScrollTop := (\<lambda>rs y. y - 15) \<rparr>"

text \<open>
  A surface on which a cell takes the explicit height of its row when the row has one and
  measures 40 otherwise; the rest as before.
\<close>

definition squeezedCells :: surface where
  "squeezedCells =
     tallRows\<lparr> cellOffsetHeight := (\<lambda>r. case styleHeight r of None \<Rightarrow> 40 | Some h \<Rightarrow> h) \<rparr>"

text \<open>A surface on which every row measures 20 whatever height is applied to it.\<close>

definition clippedRows :: surface where
  "clippedRows = tallRows\<lparr> rowOffsetHeight := (\<lambda>r. 20) \<rparr>"

text \<open>
  A window around row 25 with the body at offset \<open>y\<close>, as an earlier pass left it: the
  rows 24, 25 and 26 carry height overrides, the cells of row 25 are translated, and the
  last row of the grid closes the window.
\<close>

definition staleWindow :: "real \<Rightarrow> state" where
  "staleWindow y =
     (RowsVirtualizer 20 2 1000 2 200 y)
       \<lparr> rowCursor := 25,
         rows := [(freshRow grid1000 1 24)\<lparr> styleHeight := Some 40 \<rparr>,
                  (freshRow grid1000 2 25)
                    \<lparr> cells := [\<lparr> cellTransform = Some (- 3) \<rparr>, \<lparr> cellTransform = Some (- 3) \<rparr>],
                      styleHeight := Some 37 \<rparr>,
                  (freshRow grid1000 3 26)\<lparr> styleHeight := Some 20 \<rparr>,
                  freshRow grid1000 0 999],
         nextId := 4 \<rparr>"

text \<open>
  A grid of one row on a surface whose reflow gives the body the height of one row, and the
  state \<open>renderRows\<close> leaves it in: a window of one handle.
\<close>

definition grid1 :: state where
  "grid1 = RowsVirtualizer 20 2 1 2 0 0"

definition lowBody :: surface where
  "lowBody = tallRows\<lparr> viewportHeight := 20 \<rparr>"

definition singleRow :: state where
  "singleRow = (RowsVirtualizer 20 2 1 2 20 0)\<lparr> rows := [freshRow grid1 0 0], nextId := 1 \<rparr>"

text \<open>The same grid with five rows only, half of what a page of height 200 shows.\<close>

definition grid5 :: state where
  "grid5 = RowsVirtualizer 20 2 5 2 0 0"

text \<open>
  The handle at place \<open>i\<close> of an outcome's window: its index, its height override and the
  transforms of its cells.
\<close>

definition resultRowAt :: "nat \<Rightarrow> error + state \<Rightarrow> error + (int \<times> int option \<times> int option list)" where
  "resultRowAt i r =
     (case r of Inl e \<Rightarrow> Inl e
      | Inr s \<Rightarrow>
          (case arrayGet (rows s) (int i) of
             None \<Rightarrow> Inl RowUndefined
           | Some r \<Rightarrow> Inr (index r, styleHeight r, map cellTransform (cells r))))"

text \<open>The height override of the first handle of an outcome.\<close>

definition resultFirstHeight :: "error + state \<Rightarrow> error + int option" where
  "resultFirstHeight r =
     (case r of Inl e \<Rightarrow> Inl e
      | Inr s \<Rightarrow> (case rows s of [] \<Rightarrow> Inl RowUndefined | r0 # rs \<Rightarrow> Inr (styleHeight r0)))"

section \<open>Properties\<close>

subsection \<open>The loop of renderRows\<close>

lemma freshRow_simps [simp]:
  "rid (freshRow s n k) = n" "index (freshRow s n k) = k"
  "cells (freshRow s n k) = replicate (columns s) \<lparr> cellTransform = None \<rparr>"
  "styleHeight (freshRow s n k) = None" "styleTransform (freshRow s n k) = None"
  by (simp_all add: freshRow_def render_def)

lemma freshRow_cong: "columns s = columns t \<Longrightarrow> freshRow s = freshRow t"
  by (simp add: freshRow_def render_def fun_eq_iff)

lemma new_DataGridRow_Inr:
  "new_DataGridRow s i = Inr (r, s') \<Longrightarrow>
     0 \<le> i \<and> i < rowCount s \<and> s' = s\<lparr> nextId := Suc (nextId s) \<rparr> \<and>
     render s' r = freshRow s (nextId s) i"
  by (auto simp: new_DataGridRow_def freshRow_def render_def split: if_splits)

lemma renderLoop_Inr:
  "renderLoop i to s = Inr s' \<Longrightarrow>
     s' = s\<lparr> rows := rows s @ map (\<lambda>k. freshRow s (nextId s + nat (k - i)) k) [i..to],
             nextId := nextId s + nat (to + 1 - i) \<rparr>"
proof (induction i to s rule: renderLoop.induct)
  case (1 i to s)
  show ?case
  proof (cases "i \<le> to")
    case False
    with "1.prems" show ?thesis by (simp add: renderLoop.simps)
  next
    case True
    from True "1.prems" obtain r s1 where n: "new_DataGridRow s i = Inr (r, s1)"
      and rec: "renderLoop (i + 1) to (s1\<lparr> rows := rows s1 @ [render s1 r] \<rparr>) = Inr s'"
      by (auto simp: renderLoop.simps[of i to s] split: sum.splits)
    from new_DataGridRow_Inr[OF n] have s1: "s1 = s\<lparr> nextId := Suc (nextId s) \<rparr>"
      and rr: "render s1 r = freshRow s (nextId s) i" by blast+
    let ?s2 = "s1\<lparr> rows := rows s1 @ [render s1 r] \<rparr>"
    have ih: "s' = ?s2\<lparr> rows := rows ?s2 @ map (\<lambda>k. freshRow ?s2 (nextId ?s2 + nat (k - (i + 1))) k) [i + 1..to],
             nextId := nextId ?s2 + nat (to + 1 - (i + 1)) \<rparr>"
      using "1.IH"[OF True n refl rec] .
    have fr: "freshRow ?s2 = freshRow s" by (rule freshRow_cong) (simp add: s1)
    have m: "map (\<lambda>k. freshRow s (nextId ?s2 + nat (k - (i + 1))) k) [i + 1..to]
           = map (\<lambda>k. freshRow s (nextId s + nat (k - i)) k) [i + 1..to]"
      by (rule map_cong) (auto simp: s1 intro!: arg_cong2[where f="freshRow s"])
    have u: "[i..to] = i # [i + 1..to]" using True by (simp add: upto_rec1)
    have a: "nat (to + 1 - i) = Suc (nat (to - i))" using True by simp
    show ?thesis unfolding ih fr m u by (simp add: s1 rr[unfolded s1] a)
  qed
qed

lemma renderLoop_succeeds:
  "0 \<le> i \<or> to < i \<Longrightarrow> to < rowCount s \<Longrightarrow> \<exists>s'. renderLoop i to s = Inr s'"
proof (induction i to s rule: renderLoop.induct)
  case (1 i to s)
  show ?case
  proof (cases "i \<le> to")
    case False
    then show ?thesis by (simp add: renderLoop.simps)
  next
    case True
    with "1.prems" have v: "0 \<le> i" "i < rowCount s" by auto
    define r where "r = \<lparr> rid = nextId s, index = i, cells = [], styleHeight = None, styleTransform = None \<rparr>"
    define s1 where "s1 = s\<lparr> nextId := Suc (nextId s) \<rparr>"
    have n: "new_DataGridRow s i = Inr (r, s1)" using v by (simp add: new_DataGridRow_def r_def s1_def)
    have "\<exists>s'. renderLoop (i + 1) to (s1\<lparr> rows := rows s1 @ [render s1 r] \<rparr>) = Inr s'"
      using "1.IH"[OF True n refl] v "1.prems" by (simp add: s1_def)
    then show ?thesis using True n by (simp add: renderLoop.simps[of i to s])
  qed
qed

lemma fold_destroy: "fold destroy xs s = s\<lparr> destroyed := destroyed s @ map rid xs \<rparr>"
  by (induction xs arbitrary: s) (simp_all add: destroy_def)


lemma renderRows_empty:
  "rows s = [] \<Longrightarrow> defaultRowHeight s \<noteq> 0 \<Longrightarrow>
   renderRows c s =
     (if 1 \<le> rowCount s
      then renderRows c (s\<lparr> nextId := Suc (nextId s),
                            rows := [freshRow s (nextId s) (rowCount s - 1)] \<rparr>)
      else Inl OutOfRangeError)"
  by (simp add: renderRows_def new_DataGridRow_def freshRow_def render_def
      rangeFrom_def rangeTo_def rowsPerPage_def)

lemma renderRows_nonempty:
  assumes "rows s \<noteq> []" "defaultRowHeight s \<noteq> 0"
  shows "renderRows c s =
     (case renderLoop (rangeFrom s c) (rangeTo s c (last (rows s)))
             (s\<lparr> destroyed := destroyed s @ map rid (butlast (rows s)), rows := [] \<rparr>) of
        Inl e \<Rightarrow> Inl e
      | Inr s4 \<Rightarrow> Inr (s4\<lparr> rows := rows s4 @ [last (rows s)] \<rparr>))"
proof -
  have r: "rev (rows s) = last (rows s) # rev (butlast (rows s))"
    using assms(1) by (metis append_butlast_last_id rev_append rev_singleton_conv append_Cons append_Nil)
  show ?thesis
    using assms by (simp add: renderRows_def r fold_destroy Let_def)
qed

lemma renderRows_Inr:
  assumes "rows s \<noteq> []" "renderRows c s = Inr s'"
  shows "s' = s\<lparr> destroyed := destroyed s @ map rid (butlast (rows s)),
                 rows := map (\<lambda>k. freshRow s (nextId s + nat (k - rangeFrom s c)) k)
                           [rangeFrom s c..rangeTo s c (last (rows s))] @ [last (rows s)],
                 nextId := nextId s + nat (rangeTo s c (last (rows s)) + 1 - rangeFrom s c) \<rparr>"
proof -
  have d: "defaultRowHeight s \<noteq> 0" using assms(2) by (auto simp: renderRows_def split: if_splits)
  let ?s3 = "s\<lparr> destroyed := destroyed s @ map rid (butlast (rows s)), rows := [] \<rparr>"
  from assms(2) obtain s4 where l: "renderLoop (rangeFrom s c) (rangeTo s c (last (rows s))) ?s3 = Inr s4"
    and s': "s' = s4\<lparr> rows := rows s4 @ [last (rows s)] \<rparr>"
    unfolding renderRows_nonempty[OF assms(1) d] by (auto split: sum.splits)
  have fr: "freshRow ?s3 = freshRow s" by (rule freshRow_cong) simp
  show ?thesis unfolding s' renderLoop_Inr[OF l] fr by simp
qed

lemma renderRows_succeeds:
  assumes "rows s \<noteq> []" "defaultRowHeight s \<noteq> 0" "index (last (rows s)) \<le> rowCount s"
    and "0 \<le> rangeFrom s c \<or> rangeTo s c (last (rows s)) < rangeFrom s c"
  shows "\<exists>s'. renderRows c s = Inr s'"
proof -
  let ?s3 = "s\<lparr> destroyed := destroyed s @ map rid (butlast (rows s)), rows := [] \<rparr>"
  have "rangeTo s c (last (rows s)) < rowCount ?s3" using assms(3) by (simp add: rangeTo_def)
  from renderLoop_succeeds[OF assms(4) this]
  show ?thesis unfolding renderRows_nonempty[OF assms(1,2)] by auto
qed


lemma resetRow_Inr:
  "resetRow r = Inr r0 \<Longrightarrow>
     rid r0 = rid r \<and> index r0 = index r \<and> styleTransform r0 = styleTransform r \<and>
     length (cells r0) = length (cells r) \<and> cells r \<noteq> []"
  by (auto simp: resetRow_def split: list.splits if_splits)

lemma adjustRow_Inr:
  "adjustRow surf c d y r = Inr r' \<Longrightarrow>
     rid r' = rid r \<and> index r' = index r \<and> styleTransform r' = styleTransform r \<and>
     length (cells r') = length (cells r) \<and> cells r \<noteq> []"
  by (auto simp: adjustRow_def Let_def split: sum.splits if_splits dest!: resetRow_Inr)

lemma adjustRow_succeeds:
  "cells r \<noteq> [] \<Longrightarrow> d \<noteq> 0 \<Longrightarrow> \<exists>r'. adjustRow surf c d y r = Inr r'"
  by (auto simp: adjustRow_def resetRow_def Let_def split: list.splits)

lemma adjustRow_no_RowUndefined: "adjustRow surf c d y r \<noteq> Inl RowUndefined"
  by (auto simp: adjustRow_def resetRow_def Let_def split: list.splits)

lemma adjustLoop_Inr:
  "adjustLoop surf c d y rs = Inr rs' \<Longrightarrow>
     list_all2 (\<lambda>r r'. adjustRow surf c d y r = Inr r') rs rs'"
  by (induction rs arbitrary: rs') (auto split: sum.splits)

lemma adjustLoop_succeeds:
  "\<forall>r\<in>set rs. cells r \<noteq> [] \<Longrightarrow> d \<noteq> 0 \<Longrightarrow> \<exists>rs'. adjustLoop surf c d y rs = Inr rs'"
proof (induction rs)
  case Nil
  then show ?case by simp
next
  case (Cons r rs)
  then obtain rs' where "adjustLoop surf c d y rs = Inr rs'" by auto
  moreover obtain r' where "adjustRow surf c d y r = Inr r'"
    using adjustRow_succeeds[of r d surf c y] Cons.prems by auto
  ultimately show ?case by simp
qed

lemma adjustLoop_no_RowUndefined: "adjustLoop surf c d y rs \<noteq> Inl RowUndefined"
  using adjustRow_no_RowUndefined by (induction rs) (auto split: sum.splits)

lemma translateLoop_map:
  assumes "\<And>r y. f (r\<lparr> styleTransform := y \<rparr>) = f r"
  shows "map f (translateLoop surf b prev rs) = map f rs"
  by (induction surf b prev rs rule: translateLoop.induct) (simp_all add: Let_def assms)

lemma translateRows_map:
  assumes "\<And>r y. f (r\<lparr> styleTransform := y \<rparr>) = f r"
  shows "map f (translateRows surf b rs) = map f rs"
  by (simp add: translateRows_def translateLoop_map[of f, OF assms] split: list.splits)

lemma placeLastRow_map:
  assumes "\<And>r y. f (r\<lparr> styleTransform := y \<rparr>) = f r"
  shows "map f (placeLastRow surf rs) = map f rs"
proof (cases "2 \<le> length rs")
  case False
  then show ?thesis by (simp add: placeLastRow_def)
next
  case True
  then have ne: "rs \<noteq> []" by auto
  have l: "rs ! (length rs - 1) = last rs" using ne by (simp add: last_conv_nth)
  have "map f (butlast rs @ [last rs\<lparr> styleTransform := z \<rparr>]) = map f (butlast rs @ [last rs])" for z
    by (simp add: assms)
  then have "map f (butlast rs @ [last rs\<lparr> styleTransform := z \<rparr>]) = map f rs" for z
    using ne by simp
  then show ?thesis unfolding placeLastRow_def Let_def l by simp
qed

lemma adjustRowHeights_Inr:
  assumes "adjustRowHeights surf s = Inr s'"
  shows "\<exists>rs. adjustLoop surf (rowCursor s) (defaultRowHeight s) (scrollTop s) (rows s) = Inr rs \<and>
           s' = s\<lparr> rows := placeLastRow surf (translateRows surf (defaultTopOffset surf (hd (rows s))) rs) \<rparr> \<and>
           rows s \<noteq> []"
  using assms by (auto simp: adjustRowHeights_def Let_def split: list.splits sum.splits)

lemma adjustRowHeights_fields:
  assumes "adjustRowHeights surf s = Inr s'"
  shows "s' = s\<lparr> rows := rows s' \<rparr>" "map rid (rows s') = map rid (rows s)"
    "map index (rows s') = map index (rows s)" "rows s \<noteq> []"
proof -
  from adjustRowHeights_Inr[OF assms] obtain rs where
    l: "adjustLoop surf (rowCursor s) (defaultRowHeight s) (scrollTop s) (rows s) = Inr rs"
    and s': "s' = s\<lparr> rows := placeLastRow surf (translateRows surf (defaultTopOffset surf (hd (rows s))) rs) \<rparr>"
    and ne: "rows s \<noteq> []" by blast
  show "s' = s\<lparr> rows := rows s' \<rparr>" by (simp add: s')
  show "rows s \<noteq> []" by (rule ne)
  have a: "list_all2 (\<lambda>r r'. rid r' = rid r \<and> index r' = index r) (rows s) rs"
    by (rule list_all2_mono[OF adjustLoop_Inr[OF l]]) (auto dest: adjustRow_Inr)
  have "map rid rs = map rid (rows s)" using a
    by (induction rule: list_all2_induct) auto
  then show "map rid (rows s') = map rid (rows s)"
    by (simp add: s' placeLastRow_map translateRows_map)
  have "map index rs = map index (rows s)" using a
    by (induction rule: list_all2_induct) auto
  then show "map index (rows s') = map index (rows s)"
    by (simp add: s' placeLastRow_map translateRows_map)
qed

lemma adjustRowHeights_succeeds:
  assumes "rows s \<noteq> []" "\<forall>r\<in>set (rows s). cells r \<noteq> []" "defaultRowHeight s \<noteq> 0"
  shows "\<exists>s'. adjustRowHeights surf s = Inr s'"
proof -
  obtain rs where "adjustLoop surf (rowCursor s) (defaultRowHeight s) (scrollTop s) (rows s) = Inr rs"
    using adjustLoop_succeeds[OF assms(2,3)] by blast
  then show ?thesis using assms(1) by (cases "rows s") (auto simp: adjustRowHeights_def Let_def)
qed

subsection \<open>What the steps keep\<close>

lemma sameGeometry_refl [simp]: "sameGeometry s s"
  by (simp add: sameGeometry_def)

lemma sameGeometry_trans: "sameGeometry s t \<Longrightarrow> sameGeometry t u \<Longrightarrow> sameGeometry s u"
  by (simp add: sameGeometry_def)

lemma sameGeometry_range:
  assumes "sameGeometry s s'"
  shows "rowsPerPage s' = rowsPerPage s" "rangeFrom s' = rangeFrom s" "rangeTo s' = rangeTo s"
  using assms by (simp_all add: sameGeometry_def rowsPerPage_def rangeFrom_def rangeTo_def fun_eq_iff)

lemma adjustRowHeights_cells:
  assumes "adjustRowHeights surf s = Inr s'"
  shows "map (\<lambda>r. length (cells r)) (rows s') = map (\<lambda>r. length (cells r)) (rows s)"
proof -
  from adjustRowHeights_Inr[OF assms] obtain rs where
    l: "adjustLoop surf (rowCursor s) (defaultRowHeight s) (scrollTop s) (rows s) = Inr rs"
    and s': "s' = s\<lparr> rows := placeLastRow surf (translateRows surf (defaultTopOffset surf (hd (rows s))) rs) \<rparr>"
    by blast
  have a: "list_all2 (\<lambda>r r'. length (cells r') = length (cells r)) (rows s) rs"
    by (rule list_all2_mono[OF adjustLoop_Inr[OF l]]) (auto dest: adjustRow_Inr)
  have "map (\<lambda>r. length (cells r)) rs = map (\<lambda>r. length (cells r)) (rows s)" using a
    by (induction rule: list_all2_induct) auto
  then show ?thesis
    by (simp add: s' placeLastRow_map translateRows_map)
qed

lemma adjustRowHeights_geometry:
  assumes "adjustRowHeights surf s = Inr s'"
  shows "sameGeometry s s'" "rowCursor s' = rowCursor s" "scrollTop s' = scrollTop s"
    "nextId s' = nextId s" "destroyed s' = destroyed s"
  using adjustRowHeights_Inr[OF assms] by (auto simp: sameGeometry_def)

lemma handlesInv_adjustRowHeights:
  assumes "adjustRowHeights surf s = Inr s'" "handlesInv s"
  shows "handlesInv s'"
proof -
  note f = adjustRowHeights_fields[OF assms(1)] adjustRowHeights_cells[OF assms(1)]
  note g = adjustRowHeights_geometry[OF assms(1)]
  have ne: "rows s' \<noteq> []" using f(2) f(4) by (metis map_is_Nil_conv)
  show ?thesis using assms(2) g(1) ne unfolding handlesInv_def f(2,3) f(5) g(4,5) sameGeometry_def
    by simp
qed

lemma runInv_adjustRowHeights:
  assumes "adjustRowHeights surf s = Inr s'" "runInv s"
  shows "runInv s'"
proof -
  note f = adjustRowHeights_fields[OF assms(1)]
  note g = adjustRowHeights_geometry[OF assms(1)]
  have ne: "rows s' \<noteq> []" using f(2) f(4) by (metis map_is_Nil_conv)
  have "index (last (rows s')) = index (last (rows s))"
    using f(3) f(4) ne by (metis last_map)
  then have "rangeTo s' c (last (rows s')) = rangeTo s c (last (rows s))" for c
    using g(1) by (simp add: rangeTo_def sameGeometry_def rowsPerPage_def)
  then show ?thesis using assms(2) unfolding runInv_def f(3) g(2) sameGeometry_range(2)[OF g(1)]
    by simp
qed

lemma handlesInv_updates [simp]:
  "handlesInv (s\<lparr> rowCursor := c \<rparr>) = handlesInv s"
  "handlesInv (s\<lparr> scrollTop := y \<rparr>) = handlesInv s"
  by (simp_all add: handlesInv_def)

lemma distinct_fresh_ids:
  "distinct (map (\<lambda>k. n + nat (k - a)) [a..b])"
  by (auto simp: distinct_map inj_on_def)

lemma renderRows_effect:
  assumes "renderRows c s = Inr s'" "handlesInv s"
  shows "handlesInv s'" "sameGeometry s s'" "last (rows s') = last (rows s)"
    "butlast (map index (rows s')) = [rangeFrom s c..rangeTo s c (last (rows s))]"
    "rowCursor s' = rowCursor s" "scrollTop s' = scrollTop s"
    "destroyed s' = destroyed s @ map rid (butlast (rows s))"
proof -
  from assms(2) have ne: "rows s \<noteq> []" by (simp add: handlesInv_def)
  note e = renderRows_Inr[OF ne assms(1)]
  let ?from = "rangeFrom s c" and ?to = "rangeTo s c (last (rows s))"
  show "sameGeometry s s'" by (subst e) (simp add: sameGeometry_def)
  show "last (rows s') = last (rows s)" by (subst e) simp
  show "butlast (map index (rows s')) = [?from..?to]"
    by (subst e) (simp add: butlast_append comp_def)
  show "rowCursor s' = rowCursor s" "scrollTop s' = scrollTop s"
    "destroyed s' = destroyed s @ map rid (butlast (rows s))" by (subst e, simp)+
  have ids: "map rid (rows s') = map (\<lambda>k. nextId s + nat (k - ?from)) [?from..?to] @ [rid (last (rows s))]"
    by (subst e) (simp add: comp_def)
  have lastid: "rid (last (rows s)) < nextId s" "rid (last (rows s)) \<notin> set (destroyed s)"
    using assms(2) ne by (auto simp: handlesInv_def last_map)
  have old: "\<forall>i\<in>set (map rid (butlast (rows s))). i < nextId s \<and> i \<noteq> rid (last (rows s))"
  proof -
    have "map rid (rows s) = map rid (butlast (rows s)) @ [rid (last (rows s))]"
      using ne by (metis append_butlast_last_id list.simps(8) list.simps(9) map_append)
    with assms(2) show ?thesis unfolding handlesInv_def by auto (metis imageI)
  qed
  have d: "distinct (map rid (rows s'))"
    unfolding ids using lastid(1) by (auto simp: distinct_fresh_ids)
  have cells: "\<forall>n\<in>set (map (\<lambda>r. length (cells r)) (rows s')). n = columns s'"
  proof -
    have "length (cells (last (rows s))) = columns s"
      using assms(2) ne unfolding handlesInv_def by (metis (mono_tags, lifting) last_in_set image_eqI list.set_map)
    then show ?thesis by (subst (1 2) e) (auto simp: comp_def)
  qed
  have nid: "nextId s \<le> nextId s'" by (subst e) simp
  have bound: "\<forall>i\<in>set (map rid (rows s')). i < nextId s'"
  proof -
    have "nextId s' = nextId s + nat (?to + 1 - ?from)" by (subst e) simp
    then show ?thesis unfolding ids using lastid(1) by auto
  qed
  have lastidx: "last (map index (rows s')) = rowCount s' - 1"
  proof -
    have "last (map index (rows s')) = index (last (rows s))" by (subst e) simp
    moreover have "rowCount s' = rowCount s" by (subst e) simp
    ultimately show ?thesis using assms(2) ne by (simp add: handlesInv_def last_map)
  qed
  have des: "(\<forall>i\<in>set (destroyed s'). i < nextId s') \<and> last (map rid (rows s')) \<notin> set (destroyed s')"
  proof -
    have 1: "destroyed s' = destroyed s @ map rid (butlast (rows s))" by (subst e) simp
    have 2: "last (map rid (rows s')) = rid (last (rows s))" unfolding ids by simp
    have "\<forall>i\<in>set (destroyed s). i < nextId s" using assms(2) by (simp add: handlesInv_def)
    then show ?thesis unfolding 1 2 using old lastid nid by fastforce
  qed
  have "defaultRowHeight s' \<noteq> 0 \<and> rows s' \<noteq> []"
    using assms(2) by (subst (1 2) e) (simp add: handlesInv_def)
  then show "handlesInv s'" unfolding handlesInv_def using lastidx d bound des cells by blast
qed

lemma runInv_scrollTop [simp]: "runInv (s\<lparr> scrollTop := y \<rparr>) = runInv s"
  by (simp add: runInv_def rangeFrom_def rangeTo_def rowsPerPage_def)

lemma scroll_Inr:
  assumes "scroll surf s = Inr s'"
  obtains s1 s2 where "defaultRowHeight s \<noteq> 0"
    and "if rowCursor s \<noteq> \<lfloor>scrollTop s / real_of_int (defaultRowHeight s)\<rfloor>
         then renderRows \<lfloor>scrollTop s / real_of_int (defaultRowHeight s)\<rfloor> s = Inr s1 else s1 = s"
    and "adjustRowHeights surf (s1\<lparr> rowCursor := \<lfloor>scrollTop s / real_of_int (defaultRowHeight s)\<rfloor> \<rparr>) = Inr s2"
    and "s' = s2\<lparr> scrollTop := max (scrollTop s) (reportedScrollTop surf (rows s2) (scrollTop s)) \<rparr>"
proof -
  let ?c = "\<lfloor>scrollTop s / real_of_int (defaultRowHeight s)\<rfloor>"
  from assms have d: "defaultRowHeight s \<noteq> 0" by (auto simp: scroll_def split: if_splits)
  from assms d obtain s1 where 1: "(if rowCursor s \<noteq> ?c then renderRows ?c s else Inr s) = Inr s1"
    by (auto simp: scroll_def Let_def split: sum.splits)
  from assms d 1 obtain s2 where 2: "adjustRowHeights surf (s1\<lparr> rowCursor := ?c \<rparr>) = Inr s2"
    by (auto simp: scroll_def Let_def split: sum.splits)
  from assms d 1 2 have 3: "s' = s2\<lparr> scrollTop := max (scrollTop s) (reportedScrollTop surf (rows s2) (scrollTop s)) \<rparr>"
    by (auto simp: scroll_def Let_def max_def split: if_splits)
  from 1 have "if rowCursor s \<noteq> ?c then renderRows ?c s = Inr s1 else s1 = s"
    by (auto split: if_splits)
  with d 2 3 show thesis using that by blast
qed

lemma scroll_effect:
  assumes "scroll surf s = Inr s'" "handlesInv s" "runInv s"
  shows "handlesInv s'" "runInv s'" "sameGeometry s s'"
    "rowCursor s' = \<lfloor>scrollTop s / real_of_int (defaultRowHeight s)\<rfloor>"
    "rid (last (rows s')) = rid (last (rows s))"
proof -
  let ?c = "\<lfloor>scrollTop s / real_of_int (defaultRowHeight s)\<rfloor>"
  from assms(1) obtain s1 s2 where
    1: "if rowCursor s \<noteq> ?c then renderRows ?c s = Inr s1 else s1 = s"
    and 2: "adjustRowHeights surf (s1\<lparr> rowCursor := ?c \<rparr>) = Inr s2"
    and 3: "s' = s2\<lparr> scrollTop := max (scrollTop s) (reportedScrollTop surf (rows s2) (scrollTop s)) \<rparr>"
    by (rule scroll_Inr)
  have h1: "handlesInv s1" and g1: "sameGeometry s s1" and l1: "last (rows s1) = last (rows s)"
    and r1: "runInv (s1\<lparr> rowCursor := ?c \<rparr>)"
  proof -
    show "handlesInv s1" using 1 assms(2) renderRows_effect(1) by (auto split: if_splits)
    show g: "sameGeometry s s1" using 1 assms(2) renderRows_effect(2) by (auto split: if_splits)
    show l: "last (rows s1) = last (rows s)" using 1 assms(2) renderRows_effect(3) by (auto split: if_splits)
    show "runInv (s1\<lparr> rowCursor := ?c \<rparr>)"
    proof (cases "rowCursor s \<noteq> ?c")
      case True
      with 1 have "renderRows ?c s = Inr s1" by simp
      from renderRows_effect(4)[OF this assms(2)] show ?thesis
        using g l by (simp add: runInv_def rangeFrom_def rangeTo_def rowsPerPage_def sameGeometry_def)
    next
      case False
      then have e: "s\<lparr> rowCursor := ?c \<rparr> = s" by simp
      from 1 False have "s1 = s" by simp
      then show ?thesis using assms(3) by (simp only: e)
    qed
  qed
  let ?s1 = "s1\<lparr> rowCursor := ?c \<rparr>"
  have h2: "handlesInv s2" using handlesInv_adjustRowHeights[OF 2] h1 by simp
  have r2: "runInv s2" using runInv_adjustRowHeights[OF 2 r1] .
  note g2 = adjustRowHeights_geometry[OF 2]
  note f2 = adjustRowHeights_fields[OF 2]
  show "handlesInv s'" using h2 by (simp add: 3)
  show "runInv s'" using r2 by (simp add: 3)
  show "sameGeometry s s'" using g1 g2(1) by (simp add: 3 sameGeometry_def)
  show "rowCursor s' = ?c" using g2(2) by (simp add: 3)
  have ne: "rows s2 \<noteq> []" "rows s1 \<noteq> []" using h2 h1 by (simp_all add: handlesInv_def)
  have "map rid (rows s2) = map rid (rows s1)" using f2(2) by simp
  then have "last (map rid (rows s2)) = last (map rid (rows s1))" by simp
  then have "rid (last (rows s2)) = rid (last (rows s1))"
    using ne by (simp add: last_map)
  then show "rid (last (rows s')) = rid (last (rows s))" using l1 by (simp add: 3)
qed

lemma handlesInv_cells: "handlesInv s \<Longrightarrow> 1 \<le> columns s \<Longrightarrow> \<forall>r\<in>set (rows s). cells r \<noteq> []"
  by (auto simp: handlesInv_def)

lemma rangeFrom_nonneg: "rowsPerPage s \<le> rowCount s \<Longrightarrow> 0 \<le> rangeFrom s c"
  by (simp add: rangeFrom_def)

lemma renderRows_total:
  assumes "handlesInv s" "rowsPerPage s \<le> rowCount s"
  shows "\<exists>s'. renderRows c s = Inr s'"
proof -
  from assms(1) have ne: "rows s \<noteq> []" and d: "defaultRowHeight s \<noteq> 0"
    and l: "index (last (rows s)) = rowCount s - 1" by (auto simp: handlesInv_def last_map)
  show ?thesis
    by (rule renderRows_succeeds[OF ne d]) (use l rangeFrom_nonneg[OF assms(2)] in auto)
qed

lemma scroll_total:
  assumes "handlesInv s" "rowsPerPage s \<le> rowCount s" "1 \<le> columns s"
  shows "\<exists>s'. scroll surf s = Inr s'"
proof -
  let ?c = "\<lfloor>scrollTop s / real_of_int (defaultRowHeight s)\<rfloor>"
  from assms(1) have d: "defaultRowHeight s \<noteq> 0" by (simp add: handlesInv_def)
  have "\<exists>s1. (if rowCursor s \<noteq> ?c then renderRows ?c s else Inr s) = Inr s1"
    using renderRows_total[OF assms(1,2), of ?c] by simp
  then obtain s1 where 1: "(if rowCursor s \<noteq> ?c then renderRows ?c s else Inr s) = Inr s1"
    by blast
  have h1: "handlesInv s1" and g1: "sameGeometry s s1"
    using 1 assms(1) renderRows_effect(1,2) by (auto split: if_splits)
  let ?s1 = "s1\<lparr> rowCursor := ?c \<rparr>"
  have "handlesInv ?s1" "1 \<le> columns ?s1" using h1 g1 assms(3) by (simp_all add: sameGeometry_def)
  then have "\<exists>s2. adjustRowHeights surf ?s1 = Inr s2"
    by (intro adjustRowHeights_succeeds handlesInv_cells) (simp_all add: handlesInv_def)
  then obtain s2 where 2: "adjustRowHeights surf ?s1 = Inr s2" by blast
  show ?thesis using d 1 2 by (simp add: scroll_def Let_def)
qed


lemma handlesInv_anchor_only:
  assumes "defaultRowHeight s \<noteq> 0" "\<forall>i\<in>set (destroyed s). i < nextId s"
  shows "handlesInv (s\<lparr> nextId := Suc (nextId s),
                        rows := [freshRow s (nextId s) (rowCount s - 1)] \<rparr>)"
  using assms by (auto simp: handlesInv_def)

lemma initialRender_effect:
  assumes "initialRender surf s = Inr s'" "rows s = []" "\<forall>i\<in>set (destroyed s). i < nextId s"
  shows "handlesInv s'" "runInv s'"
    "sameGeometry (s\<lparr> offsetHeight := viewportHeight surf \<rparr>) s'" "rowCursor s' = rowCursor s"
    "1 \<le> rowCount s"
proof -
  let ?s0 = "s\<lparr> offsetHeight := viewportHeight surf \<rparr>"
  let ?sa = "?s0\<lparr> nextId := Suc (nextId ?s0), rows := [freshRow ?s0 (nextId ?s0) (rowCount ?s0 - 1)] \<rparr>"
  from assms(1) obtain s1 where 1: "renderRows (rowCursor s) ?s0 = Inr s1"
    and 2: "adjustRowHeights surf s1 = Inr s'"
    by (auto simp: initialRender_def split: sum.splits)
  from 1 have d: "defaultRowHeight ?s0 \<noteq> 0" by (auto simp: renderRows_def split: if_splits)
  have e: "rows ?s0 = []" using assms(2) by simp
  from 1 have n: "1 \<le> rowCount ?s0" and ra: "renderRows (rowCursor s) ?sa = Inr s1"
    unfolding renderRows_empty[OF e d] by (auto split: if_splits)
  show "1 \<le> rowCount s" using n by simp
  have ha: "handlesInv ?sa" using handlesInv_anchor_only[of ?s0] d assms(3) by simp
  note r = renderRows_effect[OF ra ha]
  note g = adjustRowHeights_geometry[OF 2]
  show "handlesInv s'" using handlesInv_adjustRowHeights[OF 2 r(1)] .
  have "runInv s1"
    using r(2,3,4,5) by (simp add: runInv_def rangeFrom_def rangeTo_def rowsPerPage_def sameGeometry_def)
  then show "runInv s'" using runInv_adjustRowHeights[OF 2] by simp
  show "sameGeometry ?s0 s'" using r(2) g(1) by (simp add: sameGeometry_def)
  show "rowCursor s' = rowCursor s" using r(5) g(2) by simp
qed

lemma initialRender_total:
  assumes "rows s = []" "\<forall>i\<in>set (destroyed s). i < nextId s" "defaultRowHeight s \<noteq> 0"
    "1 \<le> rowCount s" "1 \<le> columns s"
    "rowsPerPage (s\<lparr> offsetHeight := viewportHeight surf \<rparr>) \<le> rowCount s"
  shows "\<exists>s'. initialRender surf s = Inr s'"
proof -
  let ?s0 = "s\<lparr> offsetHeight := viewportHeight surf \<rparr>"
  let ?sa = "?s0\<lparr> nextId := Suc (nextId ?s0), rows := [freshRow ?s0 (nextId ?s0) (rowCount ?s0 - 1)] \<rparr>"
  have d: "defaultRowHeight ?s0 \<noteq> 0" and e: "rows ?s0 = []" using assms by simp_all
  have ha: "handlesInv ?sa" using handlesInv_anchor_only[of ?s0] d assms(2) by simp
  have p: "rowsPerPage ?sa \<le> rowCount ?sa" using assms(6) by (simp add: rowsPerPage_def)
  obtain s1 where ra: "renderRows (rowCursor s) ?sa = Inr s1"
    using renderRows_total[OF ha p] by blast
  then have 1: "renderRows (rowCursor s) ?s0 = Inr s1"
    unfolding renderRows_empty[OF e d] using assms(4) by simp
  note r = renderRows_effect[OF ra ha]
  have "1 \<le> columns s1" using r(2) assms(5) by (simp add: sameGeometry_def)
  then have "\<exists>s2. adjustRowHeights surf s1 = Inr s2"
    using r(1) by (intro adjustRowHeights_succeeds handlesInv_cells) (simp_all add: handlesInv_def)
  then show ?thesis using 1 by (auto simp: initialRender_def)
qed

lemma reachable_inv: "reachable surf s \<Longrightarrow> handlesInv s \<and> runInv s"
proof (induction rule: reachable.induct)
  case (rendered d b n cols h y s)
  then show ?case
    using initialRender_effect(1,2)[of surf "RowsVirtualizer d b n cols h y" s]
    by (simp add: RowsVirtualizer_def)
next
  case (scrolled s y s')
  then show ?case
    using scroll_effect(1,2)[of surf "s\<lparr> scrollTop := y \<rparr>" s'] by simp
qed

subsection \<open>The window of a reachable state, and the scenario\<close>

lemma window_indices:
  assumes "handlesInv s" "runInv s"
  shows "map index (rows s) =
           [rangeFrom s (rowCursor s)..min (rowCursor s + rowsPerPage s + buffer s) (rowCount s - 2)] @
           [rowCount s - 1]"
proof -
  from assms(1) have ne: "rows s \<noteq> []" and l: "index (last (rows s)) = rowCount s - 1"
    by (auto simp: handlesInv_def last_map)
  have "map index (rows s) = butlast (map index (rows s)) @ [last (map index (rows s))]"
    using ne by simp
  also have "\<dots> = [rangeFrom s (rowCursor s)..rangeTo s (rowCursor s) (last (rows s))] @ [rowCount s - 1]"
    using assms(2) l ne by (simp add: runInv_def last_map)
  finally show ?thesis using l by (simp add: rangeTo_def)
qed

lemma scenario_geometry:
  assumes "sameGeometry (grid1000\<lparr> offsetHeight := 200 \<rparr>) s"
  shows "defaultRowHeight s = 20" "buffer s = 2" "offsetHeight s = 200" "rowCount s = 1000"
    "columns s = 2" "rowsPerPage s = 10"
  using assms by (simp_all add: sameGeometry_def grid1000_def RowsVirtualizer_def rowsPerPage_def)

lemma scenario_rendered:
  assumes "viewportHeight surf = 200"
  shows "\<exists>s. initialRender surf grid1000 = Inr s"
  by (rule initialRender_total)
     (simp_all add: grid1000_def RowsVirtualizer_def rowsPerPage_def assms)

lemma firstWindow:
  "initialRender tallRows grid1000 = Inr firstWindow"
  "handlesInv firstWindow" "runInv firstWindow"
  "sameGeometry (grid1000\<lparr> offsetHeight := 200 \<rparr>) firstWindow" "rowCursor firstWindow = 0"
  "reachable tallRows firstWindow"
proof -
  have v: "viewportHeight tallRows = 200" by (simp add: tallRows_def)
  from scenario_rendered[OF v] show i: "initialRender tallRows grid1000 = Inr firstWindow"
    by (auto simp: firstWindow_def)
  have e: "rows grid1000 = []" "\<forall>i\<in>set (destroyed grid1000). i < nextId grid1000"
    by (simp_all add: grid1000_def RowsVirtualizer_def)
  note f = initialRender_effect[OF i e]
  show "handlesInv firstWindow" "runInv firstWindow" by (rule f)+
  show "sameGeometry (grid1000\<lparr> offsetHeight := 200 \<rparr>) firstWindow" using f(3) by (simp add: v)
  show "rowCursor firstWindow = 0" using f(4) by (simp add: grid1000_def RowsVirtualizer_def)
  show "reachable tallRows firstWindow"
    using i unfolding grid1000_def by (rule reachable.rendered)
qed

lemma initialRender_indices:
  assumes "rows s = []" "defaultRowHeight s \<noteq> 0" "1 \<le> rowCount s" "1 \<le> columns s"
    and "rowsPerPage (s\<lparr> offsetHeight := viewportHeight surf \<rparr>) \<le> rowCount s"
  shows "\<exists>s'. initialRender surf s = Inr s' \<and>
           map index (rows s') =
             [rangeFrom (s\<lparr> offsetHeight := viewportHeight surf \<rparr>) (rowCursor s)..
              min (rowCursor s + rowsPerPage (s\<lparr> offsetHeight := viewportHeight surf \<rparr>) + buffer s)
                  (rowCount s - 2)] @ [rowCount s - 1]"
proof -
  let ?s0 = "s\<lparr> offsetHeight := viewportHeight surf \<rparr>"
  let ?a = "freshRow ?s0 (nextId ?s0) (rowCount ?s0 - 1)"
  let ?sa = "?s0\<lparr> nextId := Suc (nextId ?s0), rows := [?a] \<rparr>"
  let ?c = "rowCursor s"
  have d: "defaultRowHeight ?s0 \<noteq> 0" and e: "rows ?s0 = []" using assms by simp_all
  have da: "defaultRowHeight ?sa \<noteq> 0" and na: "rows ?sa \<noteq> []" using assms by simp_all
  have p: "rowsPerPage ?sa = rowsPerPage ?s0" by (simp add: rowsPerPage_def)
  have fa: "rangeFrom ?sa ?c = rangeFrom ?s0 ?c" by (simp add: rangeFrom_def rowsPerPage_def)
  have ta: "rangeTo ?sa ?c (last (rows ?sa)) = min (?c + rowsPerPage ?s0 + buffer s) (rowCount s - 2)"
    by (simp add: rangeTo_def rowsPerPage_def)
  have "\<exists>s1. renderRows ?c ?sa = Inr s1"
    by (rule renderRows_succeeds[OF na da])
       (use assms(5) in \<open>simp_all add: rangeFrom_def rowsPerPage_def\<close>)
  then obtain s1 where ra: "renderRows ?c ?sa = Inr s1" by blast
  then have 1: "renderRows ?c ?s0 = Inr s1"
    unfolding renderRows_empty[OF e d] using assms(3) by simp
  note x = renderRows_Inr[OF na ra]
  have rows1: "rows s1 = map (\<lambda>k. freshRow ?sa (nextId ?sa + nat (k - rangeFrom ?sa ?c)) k)
                 [rangeFrom ?sa ?c..rangeTo ?sa ?c (last (rows ?sa))] @ [last (rows ?sa)]"
    by (subst x) simp
  have d1: "defaultRowHeight s1 \<noteq> 0" using da by (subst x) simp
  have c1: "\<forall>r\<in>set (rows s1). cells r \<noteq> []" unfolding rows1 using assms(4) by auto
  have n1: "rows s1 \<noteq> []" unfolding rows1 by simp
  obtain s' where 2: "adjustRowHeights surf s1 = Inr s'"
    using adjustRowHeights_succeeds[OF n1 c1 d1] by blast
  have "map index (rows s1) = [rangeFrom ?s0 ?c..min (?c + rowsPerPage ?s0 + buffer s) (rowCount s - 2)] @ [rowCount s - 1]"
    unfolding rows1 fa ta by (simp add: comp_def)
  then have "map index (rows s') = [rangeFrom ?s0 ?c..min (?c + rowsPerPage ?s0 + buffer s) (rowCount s - 2)] @ [rowCount s - 1]"
    using adjustRowHeights_fields(3)[OF 2] by simp
  moreover have "initialRender surf s = Inr s'" using 1 2 by (simp add: initialRender_def)
  ultimately show ?thesis by blast
qed

lemma scenario_scrolled:
  obtains s' where "scroll tallRows (firstWindow\<lparr> scrollTop := y \<rparr>) = Inr s'"
    and "handlesInv s'" and "runInv s'"
    and "sameGeometry (grid1000\<lparr> offsetHeight := 200 \<rparr>) s'"
    and "rowCursor s' = \<lfloor>y / 20\<rfloor>"
    and "reachable tallRows s'"
proof -
  note g = scenario_geometry[OF firstWindow(4)]
  let ?s = "firstWindow\<lparr> scrollTop := y \<rparr>"
  have "\<exists>s'. scroll tallRows ?s = Inr s'"
    by (rule scroll_total) (use firstWindow(2) g in \<open>simp_all add: rowsPerPage_def\<close>)
  then obtain s' where s: "scroll tallRows ?s = Inr s'" by blast
  have h: "handlesInv ?s" "runInv ?s" using firstWindow(2,3) by simp_all
  note f = scroll_effect[OF s h]
  have "sameGeometry (grid1000\<lparr> offsetHeight := 200 \<rparr>) s'"
    using firstWindow(4) f(3) by (simp add: sameGeometry_def)
  moreover have "rowCursor s' = \<lfloor>y / 20\<rfloor>" using f(4) g(1) by simp
  moreover have "reachable tallRows s'" using firstWindow(6) s by (rule reachable.scrolled)
  ultimately show thesis using that s f(1,2) by blast
qed

lemma scenario_indices:
  "resultIndices (thenScroll tallRows y (initialRender tallRows grid1000)) =
     Inr ([min (max (\<lfloor>y / 20\<rfloor> - 2) 0) 990..min (\<lfloor>y / 20\<rfloor> + 12) 998] @ [999])"
proof -
  obtain s' where s: "scroll tallRows (firstWindow\<lparr> scrollTop := y \<rparr>) = Inr s'"
    and h: "handlesInv s'" "runInv s'"
    and g: "sameGeometry (grid1000\<lparr> offsetHeight := 200 \<rparr>) s'"
    and c: "rowCursor s' = \<lfloor>y / 20\<rfloor>" by (rule scenario_scrolled)
  note v = scenario_geometry[OF g]
  have "map index (rows s') = [min (max (\<lfloor>y / 20\<rfloor> - 2) 0) 990..min (\<lfloor>y / 20\<rfloor> + 12) 998] @ [999]"
    unfolding window_indices[OF h] c by (simp add: rangeFrom_def v add.commute)
  then show ?thesis by (simp add: thenScroll_def firstWindow(1) s resultIndices_def)
qed

lemma scenario_first_indices:
  "map index (rows firstWindow) = [0, 1, 2, 3, 4, 5, 6, 7, 8, 9, 10, 11, 12, 999]"
proof -
  note v = scenario_geometry[OF firstWindow(4)]
  show ?thesis unfolding window_indices[OF firstWindow(2,3)] firstWindow(5)
    by (simp add: rangeFrom_def v upto_rec1)
qed

lemma rowsPerPage_nonneg:
  assumes "0 < defaultRowHeight s" "0 \<le> offsetHeight s"
  shows "0 \<le> rowsPerPage s"
proof -
  have "0 \<le> real_of_int (offsetHeight s) / real_of_int (defaultRowHeight s)"
    using assms by simp
  then show ?thesis unfolding rowsPerPage_def by linarith
qed

lemma adjustRowHeights_nth:
  assumes "adjustRowHeights surf s = Inr s'" "i < length (rows s)"
  shows "\<exists>r1. adjustRow surf (rowCursor s) (defaultRowHeight s) (scrollTop s) (rows s ! i) = Inr r1 \<and>
           styleHeight (rows s' ! i) = styleHeight r1 \<and> cells (rows s' ! i) = cells r1"
proof -
  from adjustRowHeights_Inr[OF assms(1)] obtain rs where
    l: "adjustLoop surf (rowCursor s) (defaultRowHeight s) (scrollTop s) (rows s) = Inr rs"
    and s': "s' = s\<lparr> rows := placeLastRow surf (translateRows surf (defaultTopOffset surf (hd (rows s))) rs) \<rparr>"
    by blast
  note a = adjustLoop_Inr[OF l]
  have n: "length rs = length (rows s)" using a by (simp add: list_all2_lengthD)
  have 1: "adjustRow surf (rowCursor s) (defaultRowHeight s) (scrollTop s) (rows s ! i) = Inr (rs ! i)"
    using a assms(2) by (rule list_all2_nthD)
  have m: "map (\<lambda>r. (styleHeight r, cells r)) (rows s') = map (\<lambda>r. (styleHeight r, cells r)) rs"
    by (simp add: s' placeLastRow_map translateRows_map)
  have n': "length (rows s') = length rs" using m by (metis length_map)
  have "map (\<lambda>r. (styleHeight r, cells r)) (rows s') ! i = map (\<lambda>r. (styleHeight r, cells r)) rs ! i"
    by (simp only: m)
  then have "styleHeight (rows s' ! i) = styleHeight (rs ! i) \<and> cells (rows s' ! i) = cells (rs ! i)"
    using assms(2) n n' by simp
  with 1 show ?thesis by blast
qed

lemma adjustRowHeights_first:
  assumes "adjustRowHeights surf s = Inr s'"
  shows "\<exists>r1. adjustRow surf (rowCursor s) (defaultRowHeight s) (scrollTop s) (hd (rows s)) = Inr r1 \<and>
           resultFirstHeight (Inr s') = Inr (styleHeight r1)"
proof -
  note f = adjustRowHeights_fields[OF assms]
  have ne: "rows s \<noteq> []" by (rule f(4))
  then have l: "0 < length (rows s)" by simp
  have ne': "rows s' \<noteq> []" using f(2) ne by (metis map_is_Nil_conv)
  from adjustRowHeights_nth[OF assms l] obtain r1 where
    a: "adjustRow surf (rowCursor s) (defaultRowHeight s) (scrollTop s) (rows s ! 0) = Inr r1"
    and h: "styleHeight (rows s' ! 0) = styleHeight r1" by blast
  have "resultFirstHeight (Inr s') = Inr (styleHeight (rows s' ! 0))"
    using ne' by (cases "rows s'") (simp_all add: resultFirstHeight_def)
  with a h ne show ?thesis by (simp add: hd_conv_nth)
qed

lemma scenario_510:
  obtains s1 where "renderRows 25 (firstWindow\<lparr> scrollTop := 510 \<rparr>) = Inr s1"
    and "handlesInv s1" and "sameGeometry (grid1000\<lparr> offsetHeight := 200 \<rparr>) s1"
    and "rowCursor s1 = 0" and "scrollTop s1 = 510"
    and "hd (rows s1) = freshRow grid1000 (nextId firstWindow) 23"
proof -
  let ?s = "firstWindow\<lparr> scrollTop := 510 \<rparr>"
  note v = scenario_geometry[OF firstWindow(4)]
  have h: "handlesInv ?s" using firstWindow(2) by simp
  have ne: "rows ?s \<noteq> []" using firstWindow(2) by (simp add: handlesInv_def)
  have l: "index (last (rows ?s)) = 999" using firstWindow(2) v by (auto simp: handlesInv_def last_map)
  have "\<exists>s1. renderRows 25 ?s = Inr s1"
    by (rule renderRows_total[OF h]) (simp add: rowsPerPage_def v)
  then obtain s1 where r: "renderRows 25 ?s = Inr s1" by blast
  note e = renderRows_effect[OF r h]
  have p: "rowsPerPage ?s = 10" using v by (simp add: rowsPerPage_def)
  have f: "rangeFrom ?s 25 = 23" "rangeTo ?s 25 (last (rows ?s)) = 37"
    using v l by (simp_all add: rangeFrom_def rangeTo_def p)
  have fr: "freshRow ?s = freshRow grid1000"
    by (rule freshRow_cong) (simp add: v grid1000_def RowsVirtualizer_def)
  have "rows s1 = map (\<lambda>k. freshRow ?s (nextId ?s + nat (k - rangeFrom ?s 25)) k)
                    [rangeFrom ?s 25..rangeTo ?s 25 (last (rows ?s))] @ [last (rows ?s)]"
    by (subst renderRows_Inr[OF ne r]) simp
  then have "hd (rows s1) = freshRow grid1000 (nextId firstWindow) 23"
    unfolding f fr by (simp add: upto_rec1[of 23 37])
  moreover have "sameGeometry (grid1000\<lparr> offsetHeight := 200 \<rparr>) s1"
    using firstWindow(4) e(2) by (simp add: sameGeometry_def)
  moreover have "rowCursor s1 = 0" "scrollTop s1 = 510" using e(5,6) firstWindow(5) by simp_all
  ultimately show thesis using that r e(1) by blast
qed

lemma adjustRow_fresh_above:
  "k < c \<Longrightarrow> \<exists>r1. adjustRow tallRows c 20 y (freshRow grid1000 n k) = Inr r1 \<and> styleHeight r1 = Some 20"
  by (simp add: adjustRow_def resetRow_def freshRow_def render_def grid1000_def RowsVirtualizer_def
      numeral_2_eq_2)

lemma adjustRow_fresh_below:
  "c < k \<Longrightarrow> \<exists>r1. adjustRow tallRows c 20 y (freshRow grid1000 n k) = Inr r1 \<and> styleHeight r1 = Some 40"
  by (simp add: adjustRow_def resetRow_def freshRow_def render_def grid1000_def RowsVirtualizer_def
      numeral_2_eq_2 tallRows_def Let_def)

subsection \<open>The pass with its reads computes the same rows\<close>

lemma arrayGet_nth: "i < length xs \<Longrightarrow> arrayGet xs (int i) = Some (xs ! i)"
  by (simp add: arrayGet_def)

lemma adjustFrom_outcome:
  "rowsLn = length rs \<Longrightarrow> i \<le> length rs \<Longrightarrow>
   snd (adjustFrom surf c d y rowsLn i rs) =
     (case adjustLoop surf c d y (drop i rs) of
        Inl e \<Rightarrow> Inl e
      | Inr rs' \<Rightarrow> Inr (take i rs @ rs'))"
proof (induction surf c d y rowsLn i rs rule: adjustFrom.induct)
  case (1 surf c d y rowsLn i rs)
  show ?case
  proof (cases "i < rowsLn")
    case False
    with "1.prems" have "i = length rs" by simp
    then show ?thesis using False "1.prems" by (subst adjustFrom.simps) simp
  next
    case True
    with "1.prems" have il: "i < length rs" by simp
    have g: "arrayGet rs (int i) = Some (rs ! i)" using il by (rule arrayGet_nth)
    have dr: "drop i rs = rs ! i # drop (Suc i) rs" using il by (simp add: Cons_nth_drop_Suc)
    show ?thesis
    proof (cases "adjustRow surf c d y (rs ! i)")
      case (Inl e)
      then show ?thesis using True g dr by (subst adjustFrom.simps) simp
    next
      case (Inr row')
      have ih: "snd (adjustFrom surf c d y rowsLn (Suc i) (rs[i := row'])) =
          (case adjustLoop surf c d y (drop (Suc i) (rs[i := row'])) of
             Inl e \<Rightarrow> Inl e
           | Inr rs' \<Rightarrow> Inr (take (Suc i) (rs[i := row']) @ rs'))"
        using "1.IH"[OF True g Inr] "1.prems" il by simp
      have t: "take (Suc i) (rs[i := row']) = take i rs @ [row']"
        using il by (simp add: take_Suc_conv_app_nth)
      have d': "drop (Suc i) (rs[i := row']) = drop (Suc i) rs" by simp
      show ?thesis
        using True g Inr ih unfolding t d' dr
        by (subst adjustFrom.simps) (simp add: case_prod_unfold split: sum.splits)
    qed
  qed
qed

lemma adjustFrom_reads:
  "rowsLn = length rs \<Longrightarrow>
   \<forall>j\<in>set (fst (adjustFrom surf c d y rowsLn i rs)). 0 \<le> j \<and> j < int rowsLn"
proof (induction surf c d y rowsLn i rs rule: adjustFrom.induct)
  case (1 surf c d y rowsLn i rs)
  show ?case
  proof (cases "i < rowsLn")
    case False
    then show ?thesis by (subst adjustFrom.simps) simp
  next
    case True
    with "1.prems" have il: "i < length rs" by simp
    have g: "arrayGet rs (int i) = Some (rs ! i)" using il by (rule arrayGet_nth)
    show ?thesis
    proof (cases "adjustRow surf c d y (rs ! i)")
      case (Inl e)
      then show ?thesis using True g by (subst adjustFrom.simps) simp
    next
      case (Inr row')
      have "\<forall>j\<in>set (fst (adjustFrom surf c d y rowsLn (Suc i) (rs[i := row']))). 0 \<le> j \<and> j < int rowsLn"
        using "1.IH"[OF True g Inr] "1.prems" by simp
      then show ?thesis using True g Inr
        by (subst adjustFrom.simps) (simp add: case_prod_unfold)
    qed
  qed
qed

lemma translateLoop_short: "length rs \<le> 1 \<Longrightarrow> translateLoop surf b prev rs = rs"
  by (cases rs; cases "tl rs") auto

lemma translateFrom_outcome:
  "rowsLn = length rs \<Longrightarrow> 1 \<le> i \<Longrightarrow> i \<le> length rs \<Longrightarrow>
   snd (translateFrom surf b rowsLn i rs) =
     Inr (take i rs @ translateLoop surf b (rs ! (i - 1)) (drop i rs))"
proof (induction surf b rowsLn i rs rule: translateFrom.induct)
  case (1 surf b rowsLn i rs)
  show ?case
  proof (cases "int i < int rowsLn - 1")
    case False
    with "1.prems" have "length (drop i rs) \<le> 1" by simp
    then have "translateLoop surf b (rs ! (i - 1)) (drop i rs) = drop i rs"
      by (rule translateLoop_short)
    then show ?thesis using False by (subst translateFrom.simps) simp
  next
    case True
    with "1.prems" have il: "Suc i < length rs" and i1: "i - 1 < length rs" by simp_all
    have gp: "arrayGet rs (int i - 1) = Some (rs ! (i - 1))"
      using arrayGet_nth[OF i1] "1.prems"(2) by (simp add: of_nat_diff)
    have gi: "arrayGet rs (int i) = Some (rs ! i)" using il by (simp add: arrayGet_nth)
    define b' where "b' = b + rowOffsetHeight surf (rs ! (i - 1))"
    define r' where "r' = (rs ! i)\<lparr> styleTransform := Some b' \<rparr>"
    have dr: "drop i rs = rs ! i # rs ! Suc i # drop (Suc (Suc i)) rs"
      using il by (simp add: Cons_nth_drop_Suc)
    have ds: "drop (Suc i) rs = rs ! Suc i # drop (Suc (Suc i)) rs"
      using il by (simp add: Cons_nth_drop_Suc)
    have ih: "snd (translateFrom surf b' rowsLn (Suc i) (rs[i := r'])) =
        Inr (take (Suc i) (rs[i := r']) @ translateLoop surf b' ((rs[i := r']) ! (Suc i - 1)) (drop (Suc i) (rs[i := r'])))"
      using "1.IH"[OF True gp gi, of b'] "1.prems" il unfolding b'_def r'_def by simp
    have t: "take (Suc i) (rs[i := r']) = take i rs @ [r']"
      using il by (simp add: take_Suc_conv_app_nth)
    have n: "(rs[i := r']) ! (Suc i - 1) = r'" using il by simp
    have d': "drop (Suc i) (rs[i := r']) = drop (Suc i) rs" by simp
    have l: "translateLoop surf b (rs ! (i - 1)) (drop i rs) =
        r' # translateLoop surf b' r' (drop (Suc i) rs)"
      unfolding dr ds by (simp add: Let_def b'_def r'_def)
    have u: "snd (translateFrom surf b rowsLn i rs) =
        snd (translateFrom surf b' rowsLn (Suc i) (rs[i := r']))"
      using True gp gi
      by (subst translateFrom.simps) (simp add: case_prod_unfold Let_def b'_def r'_def)
    show ?thesis unfolding u ih t n d' l by simp
  qed
qed

lemma translateFrom_reads:
  "rowsLn = length rs \<Longrightarrow> 1 \<le> i \<Longrightarrow>
   \<forall>j\<in>set (fst (translateFrom surf b rowsLn i rs)). 0 \<le> j \<and> j < int rowsLn"
proof (induction surf b rowsLn i rs rule: translateFrom.induct)
  case (1 surf b rowsLn i rs)
  show ?case
  proof (cases "int i < int rowsLn - 1")
    case False
    then show ?thesis by (subst translateFrom.simps) simp
  next
    case True
    with "1.prems" have il: "Suc i < length rs" and i1: "i - 1 < length rs" by simp_all
    have gp: "arrayGet rs (int i - 1) = Some (rs ! (i - 1))"
      using arrayGet_nth[OF i1] "1.prems"(2) by (simp add: of_nat_diff)
    have gi: "arrayGet rs (int i) = Some (rs ! i)" using il by (simp add: arrayGet_nth)
    define b' where "b' = b + rowOffsetHeight surf (rs ! (i - 1))"
    define r' where "r' = (rs ! i)\<lparr> styleTransform := Some b' \<rparr>"
    have "\<forall>j\<in>set (fst (translateFrom surf b' rowsLn (Suc i) (rs[i := r']))). 0 \<le> j \<and> j < int rowsLn"
      using "1.IH"[OF True gp gi, of b'] "1.prems" unfolding b'_def r'_def by simp
    then show ?thesis using True gp gi "1.prems"
      by (subst translateFrom.simps) (simp add: case_prod_unfold Let_def b'_def r'_def)
  qed
qed

lemma list_update_last: "rs \<noteq> [] \<Longrightarrow> rs[length rs - Suc 0 := x] = butlast rs @ [x]"
  by (induction rs rule: rev_induct) simp_all

lemma placeLastRead_outcome:
  assumes "rowsLn = length rs" "rs \<noteq> []"
  shows "snd (placeLastRead surf rowsLn rs) = Inr (placeLastRow surf rs)"
proof (cases "2 \<le> length rs")
  case False
  moreover have "length rs \<noteq> 0" using assms by simp
  ultimately have "length rs = 1" by linarith
  then show ?thesis using assms by (simp add: placeLastRead_def placeLastRow_def arrayGet_def)
next
  case True
  have a: "arrayGet rs (int (length rs) - 1) = Some (rs ! (length rs - 1))"
    using arrayGet_nth[of "length rs - 1" rs] True by (simp add: of_nat_diff)
  have b: "arrayGet rs (int (length rs) - 2) = Some (rs ! (length rs - 2))"
    using arrayGet_nth[of "length rs - 2" rs] True by (simp add: of_nat_diff)
  show ?thesis
    using True assms by (simp add: placeLastRead_def placeLastRow_def a b Let_def list_update_last)
qed

lemma placeLastRead_reads:
  "fst (placeLastRead surf rowsLn rs) = [int rowsLn - 1, int rowsLn - 2]"
  by (simp add: placeLastRead_def Let_def)

lemma adjustRowHeightsReads_cases:
  assumes "rows s = firstRow # rest"
  obtains (first) reads1 e where
      "adjustFrom surf (rowCursor s) (defaultRowHeight s) (scrollTop s) (length (rows s)) 0 (rows s) =
         (reads1, Inl e)"
      "adjustRowHeightsReads surf s = (0 # reads1, Inl e)"
  | (second) reads1 rs1 reads2 e where
      "adjustFrom surf (rowCursor s) (defaultRowHeight s) (scrollTop s) (length (rows s)) 0 (rows s) =
         (reads1, Inr rs1)"
      "translateFrom surf (defaultTopOffset surf firstRow) (length (rows s)) 1 rs1 = (reads2, Inl e)"
      "adjustRowHeightsReads surf s = (0 # reads1 @ reads2, Inl e)"
  | (last) reads1 rs1 reads2 rs2 where
      "adjustFrom surf (rowCursor s) (defaultRowHeight s) (scrollTop s) (length (rows s)) 0 (rows s) =
         (reads1, Inr rs1)"
      "translateFrom surf (defaultTopOffset surf firstRow) (length (rows s)) 1 rs1 = (reads2, Inr rs2)"
      "adjustRowHeightsReads surf s =
         (0 # reads1 @ reads2 @ fst (placeLastRead surf (length (rows s)) rs2),
          case snd (placeLastRead surf (length (rows s)) rs2) of
            Inl e \<Rightarrow> Inl e | Inr rs3 \<Rightarrow> Inr (s\<lparr> rows := rs3 \<rparr>))"
proof -
  have g0: "arrayGet (rows s) 0 = Some firstRow" using assms by (simp add: arrayGet_def)
  obtain reads1 o1 where p1:
    "adjustFrom surf (rowCursor s) (defaultRowHeight s) (scrollTop s) (length (rows s)) 0 (rows s) =
       (reads1, o1)" by (rule prod.exhaust)
  show thesis
  proof (cases o1)
    case (Inl e)
    have "adjustRowHeightsReads surf s = (0 # reads1, Inl e)"
      unfolding adjustRowHeightsReads_def Let_def g0 p1 Inl by simp
    with p1 Inl show ?thesis using first by blast
  next
    case (Inr rs1)
    obtain reads2 o2 where p2:
      "translateFrom surf (defaultTopOffset surf firstRow) (length (rows s)) 1 rs1 = (reads2, o2)"
      by (rule prod.exhaust)
    show ?thesis
    proof (cases o2)
      case (Inl e)
      have "adjustRowHeightsReads surf s = (0 # reads1 @ reads2, Inl e)"
        unfolding adjustRowHeightsReads_def Let_def g0 p1 Inr option.case prod.case sum.case p2 Inl
        by simp
      with p1 p2 Inl \<open>o1 = Inr rs1\<close> show ?thesis using second by blast
    next
      case (Inr rs2)
      obtain reads3 o3 where p3: "placeLastRead surf (length (rows s)) rs2 = (reads3, o3)"
        by (rule prod.exhaust)
      have "adjustRowHeightsReads surf s =
         (0 # reads1 @ reads2 @ fst (placeLastRead surf (length (rows s)) rs2),
          case snd (placeLastRead surf (length (rows s)) rs2) of
            Inl e \<Rightarrow> Inl e | Inr rs3 \<Rightarrow> Inr (s\<lparr> rows := rs3 \<rparr>))"
        unfolding adjustRowHeightsReads_def Let_def g0 p1 \<open>o1 = Inr rs1\<close> option.case prod.case sum.case
          p2 Inr p3
        by (cases o3) simp_all
      with p1 p2 Inr \<open>o1 = Inr rs1\<close> show ?thesis using last by blast
    qed
  qed
qed

lemma adjustFrom_length:
  assumes "adjustFrom surf c d y (length rs) 0 rs = (reads1, Inr rs1)"
  shows "adjustLoop surf c d y rs = Inr rs1" "length rs1 = length rs"
proof -
  have "snd (adjustFrom surf c d y (length rs) 0 rs) =
      (case adjustLoop surf c d y (drop 0 rs) of Inl e \<Rightarrow> Inl e | Inr rs' \<Rightarrow> Inr (take 0 rs @ rs'))"
    by (rule adjustFrom_outcome) simp_all
  with assms show l: "adjustLoop surf c d y rs = Inr rs1" by (simp split: sum.splits)
  from adjustLoop_Inr[OF l] show "length rs1 = length rs" by (simp add: list_all2_lengthD)
qed

lemma adjustFrom_error:
  assumes "adjustFrom surf c d y (length rs) 0 rs = (reads1, Inl e)"
  shows "adjustLoop surf c d y rs = Inl e"
proof -
  have "snd (adjustFrom surf c d y (length rs) 0 rs) =
      (case adjustLoop surf c d y (drop 0 rs) of Inl e \<Rightarrow> Inl e | Inr rs' \<Rightarrow> Inr (take 0 rs @ rs'))"
    by (rule adjustFrom_outcome) simp_all
  with assms show ?thesis by (simp split: sum.splits)
qed

lemma translateFrom_rows:
  assumes "rs1 \<noteq> []"
  shows "snd (translateFrom surf b (length rs1) 1 rs1) = Inr (translateRows surf b rs1)"
proof -
  have "snd (translateFrom surf b (length rs1) 1 rs1) =
        Inr (take 1 rs1 @ translateLoop surf b (rs1 ! (1 - 1)) (drop 1 rs1))"
  proof (rule translateFrom_outcome)
    show "length rs1 = length rs1" by simp
    show "1 \<le> (1 :: nat)" by simp
    have "0 < length rs1" using assms by simp
    then show "1 \<le> length rs1" by linarith
  qed
  then show ?thesis using assms by (cases rs1) (simp_all add: translateRows_def)
qed

lemma translateRows_length: "length (translateRows surf b rs) = length rs"
  using translateRows_map[of "\<lambda>r. ()" surf b rs] by (metis length_map)

lemma adjustRowHeightsReads_outcome:
  "snd (adjustRowHeightsReads surf s) = adjustRowHeights surf s"
proof (cases "rows s")
  case Nil
  then show ?thesis by (simp add: adjustRowHeightsReads_def adjustRowHeights_def arrayGet_def)
next
  case (Cons firstRow rest)
  let ?n = "length (rows s)"
  from Cons show ?thesis
  proof (cases rule: adjustRowHeightsReads_cases[where surf = surf])
    case (first reads1 e)
    from adjustFrom_error[OF first(1)] first(2) Cons show ?thesis
      by (simp add: adjustRowHeights_def)
  next
    case (second reads1 rs1 reads2 e)
    note a = adjustFrom_length[OF second(1)]
    have "rs1 \<noteq> []" using a(2) Cons by auto
    from translateFrom_rows[OF this, of surf "defaultTopOffset surf firstRow"] second(2) a(2)
    show ?thesis by simp
  next
    case (last reads1 rs1 reads2 rs2)
    note a = adjustFrom_length[OF last(1)]
    have ne: "rs1 \<noteq> []" using a(2) Cons by auto
    from translateFrom_rows[OF ne, of surf "defaultTopOffset surf firstRow"] last(2) a(2)
    have r2: "rs2 = translateRows surf (defaultTopOffset surf firstRow) rs1" by simp
    have l2: "length rs2 = ?n" unfolding r2 translateRows_length by (rule a(2))
    then have ne2: "rs2 \<noteq> []" using Cons by auto
    have "snd (placeLastRead surf ?n rs2) = Inr (placeLastRow surf rs2)"
      by (rule placeLastRead_outcome) (use l2 ne2 in simp_all)
    then show ?thesis using last(3) a(1) Cons by (simp add: adjustRowHeights_def r2)
  qed
qed

lemma adjustRowHeightsReads_reads:
  assumes "rows s \<noteq> []"
  shows "\<forall>j\<in>set (fst (adjustRowHeightsReads surf s)).
           (0 \<le> j \<and> j < int (length (rows s))) \<or> (j = - 1 \<and> length (rows s) = 1)"
proof -
  let ?n = "length (rows s)"
  let ?c = "rowCursor s" and ?d = "defaultRowHeight s" and ?y = "scrollTop s"
  from assms obtain firstRow rest where Cons: "rows s = firstRow # rest" by (cases "rows s") auto
  have n: "0 < ?n" using assms by simp
  have z: "0 \<le> (0 :: int) \<and> 0 < int ?n" using n by simp
  have r1: "\<forall>j\<in>set (fst (adjustFrom surf ?c ?d ?y ?n 0 (rows s))). 0 \<le> j \<and> j < int ?n"
    by (rule adjustFrom_reads) simp
  have r2: "\<forall>j\<in>set (fst (translateFrom surf b ?n 1 rs1)). 0 \<le> j \<and> j < int ?n"
    if "length rs1 = ?n" for b rs1
    by (rule translateFrom_reads) (use that in simp_all)
  have r3: "\<forall>j\<in>set (fst (placeLastRead surf ?n rs2)).
      (0 \<le> j \<and> j < int ?n) \<or> (j = - 1 \<and> ?n = 1)" for rs2
  proof -
    have "?n = 1 \<or> 2 \<le> ?n" using n by linarith
    then show ?thesis unfolding placeLastRead_reads by auto
  qed
  from Cons show ?thesis
  proof (cases rule: adjustRowHeightsReads_cases[where surf = surf])
    case (first reads1 e)
    from r1 first(1) have "\<forall>j\<in>set reads1. 0 \<le> j \<and> j < int ?n" by simp
    with z show ?thesis unfolding first(2) by simp
  next
    case (second reads1 rs1 reads2 e)
    from r1 second(1) have 1: "\<forall>j\<in>set reads1. 0 \<le> j \<and> j < int ?n" by simp
    from r2[OF adjustFrom_length(2)[OF second(1)], of "defaultTopOffset surf firstRow"] second(2)
    have 2: "\<forall>j\<in>set reads2. 0 \<le> j \<and> j < int ?n" by simp
    from z 1 2 show ?thesis unfolding second(3) by auto
  next
    case (last reads1 rs1 reads2 rs2)
    from r1 last(1) have 1: "\<forall>j\<in>set reads1. 0 \<le> j \<and> j < int ?n" by simp
    from r2[OF adjustFrom_length(2)[OF last(1)], of "defaultTopOffset surf firstRow"] last(2)
    have 2: "\<forall>j\<in>set reads2. 0 \<le> j \<and> j < int ?n" by simp
    from z 1 2 r3[of rs2] show ?thesis unfolding last(3) by auto
  qed
qed

subsection \<open>The row at the cursor\<close>

lemma resetRow_cases:
  assumes "cells r \<noteq> []"
  shows "resetRow r =
    Inr (r\<lparr> styleHeight := None,
            cells := (if cellTransform (hd (cells r)) \<noteq> None
                      then map (\<lambda>c. c\<lparr> cellTransform := None \<rparr>) (cells r)
                      else cells r) \<rparr>)"
  using assms by (cases "cells r") (simp_all add: resetRow_def)

lemma adjustRow_unfold:
  assumes "cells r \<noteq> []"
  shows "adjustRow surf cursor d y r =
    (let r0 = r\<lparr> styleHeight := None,
                 cells := (if cellTransform (hd (cells r)) \<noteq> None
                           then map (\<lambda>c. c\<lparr> cellTransform := None \<rparr>) (cells r)
                           else cells r) \<rparr>;
         h = cellOffsetHeight surf r0;
         applied = \<lfloor>roundDouble (real_of_int h -
                      roundDouble (real_of_int (h - d) *
                        roundDouble (roundDouble (y / real_of_int d) - real_of_int cursor)))\<rfloor>
     in if index r < cursor then Inr (r0\<lparr> styleHeight := Some d \<rparr>)
        else if cursor < index r then Inr (r0\<lparr> styleHeight := Some h \<rparr>)
        else if d < rowOffsetHeight surf (r0\<lparr> styleHeight := Some h \<rparr>)
        then (if d = 0 then Inl NotFinite
              else Inr (r0\<lparr> styleHeight := Some applied,
                           cells := map (\<lambda>c. c\<lparr> cellTransform := Some (applied - h) \<rparr>) (cells r0) \<rparr>))
        else Inr (r0\<lparr> styleHeight := Some h \<rparr>))"
  unfolding adjustRow_def resetRow_cases[OF assms] by (simp add: Let_def)

lemma scenario_row25:
  assumes v: "viewportHeight surf = 200" and y: "\<lfloor>y / 20\<rfloor> = (25 :: int)"
  obtains n r1 s' where
    "thenScroll surf y (initialRender surf grid1000) = Inr s'"
    "adjustRow surf 25 20 y (freshRow grid1000 n 25) = Inr r1"
    "resultRowAt 2 (Inr s') = Inr (25, styleHeight r1, map cellTransform (cells r1))"
proof -
  from scenario_rendered[OF v] obtain s0 where i: "initialRender surf grid1000 = Inr s0" by blast
  have e: "rows grid1000 = []" "\<forall>i\<in>set (destroyed grid1000). i < nextId grid1000"
    by (simp_all add: grid1000_def RowsVirtualizer_def)
  note f = initialRender_effect[OF i e]
  note g = scenario_geometry[OF f(3)[unfolded v]]
  have c0: "rowCursor s0 = 0" using f(4) by (simp add: grid1000_def RowsVirtualizer_def)
  let ?s = "s0\<lparr> scrollTop := y \<rparr>"
  have "\<exists>s'. scroll surf ?s = Inr s'"
    by (rule scroll_total) (use f(1) g in \<open>simp_all add: rowsPerPage_def\<close>)
  then obtain s' where sc: "scroll surf ?s = Inr s'" by blast
  have fl: "\<lfloor>scrollTop ?s / real_of_int (defaultRowHeight ?s)\<rfloor> = 25" using g y by simp
  from sc obtain s1 s2 where
    1: "if rowCursor ?s \<noteq> 25 then renderRows 25 ?s = Inr s1 else s1 = ?s"
    and 2: "adjustRowHeights surf (s1\<lparr> rowCursor := 25 \<rparr>) = Inr s2"
    and 3: "s' = s2\<lparr> scrollTop := max (scrollTop ?s) (reportedScrollTop surf (rows s2) (scrollTop ?s)) \<rparr>"
    unfolding fl[symmetric] by (rule scroll_Inr)
  from 1 c0 have r: "renderRows 25 ?s = Inr s1" by simp
  have ne: "rows ?s \<noteq> []" using f(1) by (simp add: handlesInv_def)
  have l: "index (last (rows ?s)) = 999" using f(1) g by (auto simp: handlesInv_def last_map)
  have p: "rowsPerPage ?s = 10" using g by (simp add: rowsPerPage_def)
  have rf: "rangeFrom ?s 25 = 23" "rangeTo ?s 25 (last (rows ?s)) = 37"
    using g l by (simp_all add: rangeFrom_def rangeTo_def p)
  have fr: "freshRow ?s = freshRow grid1000"
    by (rule freshRow_cong) (simp add: g grid1000_def RowsVirtualizer_def)
  have "rows s1 = map (\<lambda>k. freshRow ?s (nextId ?s + nat (k - rangeFrom ?s 25)) k)
                    [rangeFrom ?s 25..rangeTo ?s 25 (last (rows ?s))] @ [last (rows ?s)]"
    by (subst renderRows_Inr[OF ne r]) simp
  then have rows1: "rows s1 = map (\<lambda>k. freshRow grid1000 (nextId s0 + nat (k - 23)) k) [23..37] @
      [last (rows ?s)]"
    unfolding rf fr by simp
  have len1: "2 < length (rows s1)" unfolding rows1 by simp
  have nth1: "rows s1 ! 2 = freshRow grid1000 (nextId s0 + 2) 25"
    unfolding rows1 by (simp add: upto_rec1[of 23 37] upto_rec1[of 24 37] upto_rec1[of 25 37])
  let ?t = "s1\<lparr> rowCursor := 25 \<rparr>"
  have lt: "2 < length (rows ?t)" using len1 by simp
  from adjustRowHeights_nth[OF 2 lt] obtain r1 where
    a: "adjustRow surf (rowCursor ?t) (defaultRowHeight ?t) (scrollTop ?t) (rows ?t ! 2) = Inr r1"
    and h: "styleHeight (rows s2 ! 2) = styleHeight r1" and c: "cells (rows s2 ! 2) = cells r1"
    by blast
  note e1 = renderRows_Inr[OF ne r]
  have d1: "defaultRowHeight s1 = 20" "scrollTop s1 = y" using g by (subst e1, simp)+
  have a': "adjustRow surf 25 20 y (freshRow grid1000 (nextId s0 + 2) 25) = Inr r1"
    using a by (simp add: d1 nth1)
  note m = adjustRowHeights_fields(3)[OF 2]
  have len2: "length (rows s2) = length (rows ?t)" using m by (metis length_map)
  have "map index (rows s2) ! 2 = map index (rows ?t) ! 2" by (simp only: m)
  then have ix: "index (rows s2 ! 2) = 25" using lt len2 by (simp add: nth1)
  have "resultRowAt 2 (Inr s') = Inr (25, styleHeight r1, map cellTransform (cells r1))"
    using lt len2 by (simp add: resultRowAt_def arrayGet_def 3 ix h c)
  moreover have "thenScroll surf y (initialRender surf grid1000) = Inr s'"
    by (simp add: thenScroll_def i sc)
  ultimately show thesis using that a' by blast
qed

lemma freshRow_cells2:
  "cells (freshRow grid1000 n k) = [\<lparr> cellTransform = None \<rparr>, \<lparr> cellTransform = None \<rparr>]"
  by (simp add: grid1000_def RowsVirtualizer_def numeral_2_eq_2)

lemma roundDouble_501:
  "\<lfloor>roundDouble (40 - roundDouble (20 * roundDouble (roundDouble (501 / 20) - 25)))\<rfloor> = (38 :: int)"
  by (simp add: roundDouble_def binaryExponent_def pow2_def floorLog2.simps Let_def)

lemma roundDouble_510:
  "\<lfloor>roundDouble (40 - roundDouble (20 * roundDouble (roundDouble (51 / 2) - 25)))\<rfloor> = (30 :: int)"
  by (simp add: roundDouble_def binaryExponent_def pow2_def floorLog2.simps Let_def)

lemma columns_grid1000: "columns grid1000 = Suc (Suc 0)"
  by (simp add: grid1000_def RowsVirtualizer_def)

section \<open>The properties of the specification\<close>

subsection \<open>The range of renderRows\<close>

text \<open>
  C1. A call of \<open>renderRows\<close> with cursor \<open>c\<close> on a non-empty window whose last handle is
  the row \<open>N - 1\<close> leaves, when it returns, the rows \<open>from..to\<close> followed by that handle,
  with \<open>from = min (max (c - b) 0) (N - p)\<close> and \<open>to = min (c + p + b) (N - 1 - 1)\<close>, where
  \<open>p = rowsPerPage\<close> is the ceiling of the body height over the default row height; and it
  returns whenever a page is no longer than the grid. In the scenario (1000 rows of height
  20, body height 200, buffer 2) the offset 500 gives the cursor 25 and the rows 23 to 37
  and 999.
\<close>

theorem renderRows_range:
  assumes "rows s \<noteq> []" and "index (last (rows s)) = rowCount s - 1"
  shows "rowsPerPage s = \<lceil>real_of_int (offsetHeight s) / real_of_int (defaultRowHeight s)\<rceil> \<and>
         (\<forall>s'. renderRows c s = Inr s' \<longrightarrow>
            map index (rows s') =
              [min (max (c - buffer s) 0) (rowCount s - rowsPerPage s)..
               min (c + rowsPerPage s + buffer s) (rowCount s - 1 - 1)] @ [rowCount s - 1]) \<and>
         (defaultRowHeight s \<noteq> 0 \<and> rowsPerPage s \<le> rowCount s \<longrightarrow>
            (\<exists>s'. renderRows c s = Inr s'))"
proof (intro conjI allI impI)
  show "rowsPerPage s = \<lceil>real_of_int (offsetHeight s) / real_of_int (defaultRowHeight s)\<rceil>"
    by (simp add: rowsPerPage_def)
next
  fix s' assume r: "renderRows c s = Inr s'"
  note x = renderRows_Inr[OF assms(1) r]
  have "rows s' = map (\<lambda>k. freshRow s (nextId s + nat (k - rangeFrom s c)) k)
                    [rangeFrom s c..rangeTo s c (last (rows s))] @ [last (rows s)]"
    by (subst x) simp
  then show "map index (rows s') =
      [min (max (c - buffer s) 0) (rowCount s - rowsPerPage s)..
       min (c + rowsPerPage s + buffer s) (rowCount s - 1 - 1)] @ [rowCount s - 1]"
    using assms(2) by (simp add: comp_def rangeFrom_def rangeTo_def)
next
  assume a: "defaultRowHeight s \<noteq> 0 \<and> rowsPerPage s \<le> rowCount s"
  show "\<exists>s'. renderRows c s = Inr s'"
    by (rule renderRows_succeeds[OF assms(1)]) (use a assms(2) in \<open>simp_all add: rangeFrom_def\<close>)
qed

theorem renderRows_range_witness:
  "rows (firstWindow\<lparr> scrollTop := 500 \<rparr>) \<noteq> [] \<and>
   index (last (rows (firstWindow\<lparr> scrollTop := 500 \<rparr>))) = 999 \<and>
   rowsPerPage (firstWindow\<lparr> scrollTop := 500 \<rparr>) = 10 \<and>
   \<lfloor>scrollTop (firstWindow\<lparr> scrollTop := 500 \<rparr>) / 20\<rfloor> = (25 :: int) \<and>
   resultIndices (renderRows 25 (firstWindow\<lparr> scrollTop := 500 \<rparr>)) =
     Inr [23, 24, 25, 26, 27, 28, 29, 30, 31, 32, 33, 34, 35, 36, 37, 999]"
proof -
  let ?s = "firstWindow\<lparr> scrollTop := 500 \<rparr>"
  note v = scenario_geometry[OF firstWindow(4)]
  have ne: "rows ?s \<noteq> []" using firstWindow(2) by (simp add: handlesInv_def)
  have l: "index (last (rows ?s)) = rowCount ?s - 1"
    using firstWindow(2) by (auto simp: handlesInv_def last_map)
  have p: "rowsPerPage ?s = 10" using v by (simp add: rowsPerPage_def)
  note t = renderRows_range[OF ne l, of 25]
  from t obtain s' where r: "renderRows 25 ?s = Inr s'" using v p by auto
  with t have "map index (rows s') =
      [min (max (25 - buffer ?s) 0) (rowCount ?s - rowsPerPage ?s)..
       min (25 + rowsPerPage ?s + buffer ?s) (rowCount ?s - 1 - 1)] @ [rowCount ?s - 1]" by blast
  then have "map index (rows s') = [23, 24, 25, 26, 27, 28, 29, 30, 31, 32, 33, 34, 35, 36, 37, 999]"
    unfolding p using v by simp
  then show ?thesis using ne l p v r by (simp add: resultIndices_def)
qed

subsection \<open>Contiguity\<close>

text \<open>
  C2, as the specification states it, is false: after the first render of the scenario and
  a scroll to offset 19980 the cursor is 999, the index of the last row, while the run
  before the last handle is 990 to 998.
\<close>

theorem C2_counterexample:
  "resultIndices (thenScroll tallRows 19980 (initialRender tallRows grid1000)) =
     Inr [990, 991, 992, 993, 994, 995, 996, 997, 998, 999] \<and>
   \<not> holds contiguousAroundCursor (thenScroll tallRows 19980 (initialRender tallRows grid1000))"
proof -
  obtain s' where s: "scroll tallRows (firstWindow\<lparr> scrollTop := 19980 \<rparr>) = Inr s'"
    and c: "rowCursor s' = \<lfloor>(19980 :: real) / 20\<rfloor>" by (rule scenario_scrolled[of 19980])
  have i: "resultIndices (thenScroll tallRows 19980 (initialRender tallRows grid1000)) =
     Inr [990, 991, 992, 993, 994, 995, 996, 997, 998, 999]"
    unfolding scenario_indices by simp
  then have "map index (rows s') = [990, 991, 992, 993, 994, 995, 996, 997, 998, 999]"
    by (simp add: thenScroll_def firstWindow(1) s resultIndices_def)
  then have "\<not> contiguousAroundCursor s'"
    using c by (simp add: contiguousAroundCursor_def)
  then show ?thesis using i by (simp add: thenScroll_def firstWindow(1) s holds_def)
qed

text \<open>
  C2, amended. In every reachable state the indices before the last handle are the run
  \<open>from..to\<close> of the stored cursor, strictly increasing; the cursor lies in the run when
  \<open>0 \<le> cursor \<le> rowCount - 2\<close> (buffer and page size not negative), and lies above it
  when the cursor is at the last row or beyond.
\<close>

theorem window_run:
  assumes "reachable surf s"
  shows "butlast (map index (rows s)) =
           [rangeFrom s (rowCursor s)..rangeTo s (rowCursor s) (last (rows s))] \<and>
         sorted_wrt (<) (butlast (map index (rows s))) \<and>
         (0 \<le> buffer s \<and> 0 \<le> rowsPerPage s \<and> 0 \<le> rowCursor s \<and> rowCursor s \<le> rowCount s - 2 \<longrightarrow>
            rangeFrom s (rowCursor s) \<le> rowCursor s \<and>
            rowCursor s \<le> rangeTo s (rowCursor s) (last (rows s))) \<and>
         (rowCount s - 1 \<le> rowCursor s \<longrightarrow> rangeTo s (rowCursor s) (last (rows s)) < rowCursor s)"
proof -
  from reachable_inv[OF assms] have h: "handlesInv s" and r: "runInv s" by simp_all
  from h have l: "index (last (rows s)) = rowCount s - 1" by (auto simp: handlesInv_def last_map)
  have 1: "butlast (map index (rows s)) =
           [rangeFrom s (rowCursor s)..rangeTo s (rowCursor s) (last (rows s))]"
    using r by (simp add: runInv_def)
  have 2: "sorted_wrt (<) (butlast (map index (rows s)))"
    unfolding 1 by (simp add: strict_sorted_iff)
  show ?thesis using 1 2 l by (auto simp: rangeFrom_def rangeTo_def)
qed

theorem window_run_witness:
  "reachable tallRows firstWindow \<and>
   butlast (map index (rows firstWindow)) = [0, 1, 2, 3, 4, 5, 6, 7, 8, 9, 10, 11, 12] \<and>
   rowCursor firstWindow = 0 \<and>
   rangeFrom firstWindow 0 = 0 \<and> rangeTo firstWindow 0 (last (rows firstWindow)) = 12"
proof -
  note v = scenario_geometry[OF firstWindow(4)]
  note t = window_run[OF firstWindow(6)]
  have l: "index (last (rows firstWindow)) = 999"
    using firstWindow(2) v by (auto simp: handlesInv_def last_map)
  have a: "rangeFrom firstWindow 0 = 0" "rangeTo firstWindow 0 (last (rows firstWindow)) = 12"
    using v l by (simp_all add: rangeFrom_def rangeTo_def)
  from t have "butlast (map index (rows firstWindow)) = [0..12]"
    unfolding firstWindow(5) a by blast
  then show ?thesis using firstWindow(5,6) a by (simp add: upto_rec1)
qed

subsection \<open>The anchor\<close>



subsection \<open>The size of the window\<close>

text \<open>
  C4, as the specification states it, is false: in the scenario at offset 500 the window
  holds 16 handles, and \<open>rowsPerPage + 2 * buffer + 1\<close> is 15.
\<close>

theorem C4_counterexample:
  "resultIndices (thenScroll tallRows 500 (initialRender tallRows grid1000)) =
     Inr [23, 24, 25, 26, 27, 28, 29, 30, 31, 32, 33, 34, 35, 36, 37, 999] \<and>
   \<not> holds withinSpecifiedBound (thenScroll tallRows 500 (initialRender tallRows grid1000))"
proof -
  obtain s' where s: "scroll tallRows (firstWindow\<lparr> scrollTop := 500 \<rparr>) = Inr s'"
    and g: "sameGeometry (grid1000\<lparr> offsetHeight := 200 \<rparr>) s'" by (rule scenario_scrolled)
  note v = scenario_geometry[OF g]
  have i: "resultIndices (thenScroll tallRows 500 (initialRender tallRows grid1000)) =
     Inr [23, 24, 25, 26, 27, 28, 29, 30, 31, 32, 33, 34, 35, 36, 37, 999]"
    unfolding scenario_indices by simp
  then have "map index (rows s') = [23, 24, 25, 26, 27, 28, 29, 30, 31, 32, 33, 34, 35, 36, 37, 999]"
    by (simp add: thenScroll_def firstWindow(1) s resultIndices_def)
  then have "length (map index (rows s')) = 16" by simp
  then have "length (rows s') = 16" by simp
  then have "\<not> withinSpecifiedBound s'"
    using v by (simp add: withinSpecifiedBound_def)
  then show ?thesis using i by (simp add: thenScroll_def firstWindow(1) s holds_def)
qed

text \<open>
  C4, amended. In every reachable state with a buffer that is not negative, a positive
  default row height and a body height that is not negative, the window holds at most
  \<open>rowsPerPage + 2 * buffer + 2\<close> handles, whatever the row count.
\<close>

theorem window_size_bound:
  assumes "reachable surf s" "0 \<le> buffer s" "0 < defaultRowHeight s" "0 \<le> offsetHeight s"
  shows "int (length (rows s)) \<le> rowsPerPage s + 2 * buffer s + 2"
proof -
  from reachable_inv[OF assms(1)] have h: "handlesInv s" and r: "runInv s" by simp_all
  have p: "0 \<le> rowsPerPage s" using assms(3,4) by (rule rowsPerPage_nonneg)
  have "length (map index (rows s)) =
      length ([rangeFrom s (rowCursor s)..min (rowCursor s + rowsPerPage s + buffer s) (rowCount s - 2)] @
           [rowCount s - 1])"
    by (simp only: window_indices[OF h r])
  then have "int (length (rows s)) =
      int (nat (min (rowCursor s + rowsPerPage s + buffer s) (rowCount s - 2) - rangeFrom s (rowCursor s) + 1)) + 1"
    by simp
  then show ?thesis using p assms(2) by (simp add: rangeFrom_def) linarith
qed

theorem window_size_bound_witness:
  "reachable tallRows firstWindow \<and> rowsPerPage firstWindow = 10 \<and> buffer firstWindow = 2 \<and>
   int (length (rows firstWindow)) \<le> 16"
proof -
  note v = scenario_geometry[OF firstWindow(4)]
  have "int (length (rows firstWindow)) \<le> rowsPerPage firstWindow + 2 * buffer firstWindow + 2"
    by (rule window_size_bound[OF firstWindow(6)]) (simp_all add: v)
  then show ?thesis using v firstWindow(6) by simp
qed

subsection \<open>The first render of the scenario\<close>

text \<open>
  C5, as the specification states it, is false: the first render of the scenario leaves the
  rows 0 to 12 and 999, thirteen rows before the anchor and not twelve.
\<close>

theorem C5_counterexample:
  "resultIndices (initialRender tallRows grid1000) =
     Inr [0, 1, 2, 3, 4, 5, 6, 7, 8, 9, 10, 11, 12, 999] \<and>
   set [0, 1, 2, 3, 4, 5, 6, 7, 8, 9, 10, 11, 12, 999] \<noteq> {0..11} \<union> {999 :: int}"
proof -
  have "(12 :: int) \<in> set [0, 1, 2, 3, 4, 5, 6, 7, 8, 9, 10, 11, 12, 999]" by simp
  moreover have "(12 :: int) \<notin> {0..11} \<union> {999}" by simp
  ultimately have "set [0, 1, 2, 3, 4, 5, 6, 7, 8, 9, 10, 11, 12, 999] \<noteq> {0..11} \<union> {999 :: int}"
    by metis
  then show ?thesis by (simp add: resultIndices_def firstWindow(1) scenario_first_indices)
qed

text \<open>
  C5, amended. With 1000 rows, default row height 20, buffer 2, cursor 0 and a reflow that
  gives the body the height 200, \<open>initialRender\<close> on an empty window returns and leaves a
  window whose indices are exactly 0 to 12 and 999.
\<close>

theorem initialRender_first_window:
  assumes "rows s = []" "rowCursor s = 0" "defaultRowHeight s = 20" "buffer s = 2"
    "rowCount s = 1000" "viewportHeight surf = 200" "1 \<le> columns s"
  shows "\<exists>s'. initialRender surf s = Inr s' \<and>
           map index (rows s') = [0, 1, 2, 3, 4, 5, 6, 7, 8, 9, 10, 11, 12, 999] \<and>
           set (map index (rows s')) = {0..12} \<union> {999}"
proof -
  have p: "rowsPerPage (s\<lparr> offsetHeight := viewportHeight surf \<rparr>) = 10"
    using assms by (simp add: rowsPerPage_def)
  have "\<exists>s'. initialRender surf s = Inr s' \<and>
           map index (rows s') =
             [rangeFrom (s\<lparr> offsetHeight := viewportHeight surf \<rparr>) (rowCursor s)..
              min (rowCursor s + rowsPerPage (s\<lparr> offsetHeight := viewportHeight surf \<rparr>) + buffer s)
                  (rowCount s - 2)] @ [rowCount s - 1]"
    by (rule initialRender_indices) (use assms p in simp_all)
  moreover have "rowsPerPage (s\<lparr> offsetHeight := 200 \<rparr>) = 10"
    using assms by (simp add: rowsPerPage_def)
  ultimately obtain s' where i: "initialRender surf s = Inr s'"
    and m: "map index (rows s') = [0..12] @ [999]"
    using assms by (auto simp: rangeFrom_def)
  have a: "set (map index (rows s')) = {0..12} \<union> {999}" unfolding m by auto
  have b: "map index (rows s') = [0, 1, 2, 3, 4, 5, 6, 7, 8, 9, 10, 11, 12, 999]"
    unfolding m by (simp add: upto_rec1)
  show ?thesis by (intro exI[of _ s'] conjI i a b)
qed

theorem initialRender_first_window_witness:
  "rows grid1000 = [] \<and> rowCursor grid1000 = 0 \<and> defaultRowHeight grid1000 = 20 \<and>
   buffer grid1000 = 2 \<and> rowCount grid1000 = 1000 \<and> viewportHeight tallRows = 200 \<and>
   (\<exists>s'. initialRender tallRows grid1000 = Inr s' \<and>
         set (map index (rows s')) = {0..12} \<union> {999})"
proof -
  have a: "rows grid1000 = []" "rowCursor grid1000 = 0" "defaultRowHeight grid1000 = 20"
    "buffer grid1000 = 2" "rowCount grid1000 = 1000" "viewportHeight tallRows = 200"
    "1 \<le> columns grid1000"
    by (simp_all add: grid1000_def RowsVirtualizer_def tallRows_def)
  from initialRender_first_window[OF a] obtain s' where
    "initialRender tallRows grid1000 = Inr s'" "set (map index (rows s')) = {0..12} \<union> {999}"
    by auto
  then have "\<exists>s'. initialRender tallRows grid1000 = Inr s' \<and>
         set (map index (rows s')) = {0..12} \<union> {999}" by (intro exI[of _ s'] conjI)
  with a(1-6) show ?thesis by (intro conjI)
qed

subsection \<open>The heights adjustRowHeights applies\<close>

text \<open>
  C6, as the specification states it, is false in two respects. The height of the row at
  the cursor is computed in double arithmetic: in the scenario scrolled to offset 501 the
  quotient \<open>501 / 20\<close> rounds to a double above \<open>25.05\<close>, the code applies the height 38
  and translates the cells by \<open>- 2\<close>, while the formula over the reals gives 39. And the
  code tests the measured height of the row, not of its cell: on a surface whose rows
  measure 20 while their cells measure 40, the row at the cursor (offset 510) keeps the
  height 40 and its cells are not translated.
\<close>

theorem C6_counterexample:
  "resultRowAt 2 (thenScroll tallRows 501 (initialRender tallRows grid1000)) =
     Inr (25, Some 38, [Some (- 2), Some (- 2)]) \<and>
   \<lfloor>(40 :: real) - (40 - 20) * (501 / 20 - 25)\<rfloor> = (39 :: int) \<and>
   resultRowAt 2 (thenScroll clippedRows 510 (initialRender clippedRows grid1000)) =
     Inr (25, Some 40, [None, None])"
proof -
  have 1: "resultRowAt 2 (thenScroll tallRows 501 (initialRender tallRows grid1000)) =
     Inr (25, Some 38, [Some (- 2), Some (- 2)])"
  proof -
    obtain n r1 s' where t: "thenScroll tallRows 501 (initialRender tallRows grid1000) = Inr s'"
      and a: "adjustRow tallRows 25 20 501 (freshRow grid1000 n 25) = Inr r1"
      and r: "resultRowAt 2 (Inr s') = Inr (25, styleHeight r1, map cellTransform (cells r1))"
      by (rule scenario_row25[of tallRows 501]) (simp_all add: tallRows_def)
    have ne: "cells (freshRow grid1000 n 25) \<noteq> []" unfolding freshRow_cells2 by simp
    from a have "styleHeight r1 = Some 38 \<and> map cellTransform (cells r1) = [Some (- 2), Some (- 2)]"
      unfolding adjustRow_unfold[OF ne]
      by (auto simp: Let_def tallRows_def columns_grid1000 roundDouble_501)
    with t r show ?thesis by simp
  qed
  have 2: "\<lfloor>(40 :: real) - (40 - 20) * (501 / 20 - 25)\<rfloor> = (39 :: int)" by simp
  have 3: "resultRowAt 2 (thenScroll clippedRows 510 (initialRender clippedRows grid1000)) =
     Inr (25, Some 40, [None, None])"
  proof -
    obtain n r1 s' where t: "thenScroll clippedRows 510 (initialRender clippedRows grid1000) = Inr s'"
      and a: "adjustRow clippedRows 25 20 510 (freshRow grid1000 n 25) = Inr r1"
      and r: "resultRowAt 2 (Inr s') = Inr (25, styleHeight r1, map cellTransform (cells r1))"
      by (rule scenario_row25[of clippedRows 510]) (simp_all add: clippedRows_def tallRows_def)
    have ne: "cells (freshRow grid1000 n 25) \<noteq> []" unfolding freshRow_cells2 by simp
    from a have "styleHeight r1 = Some 40 \<and> map cellTransform (cells r1) = [None, None]"
      unfolding adjustRow_unfold[OF ne]
      by (auto simp: Let_def clippedRows_def tallRows_def columns_grid1000)
    with t r show ?thesis by simp
  qed
  from 1 2 3 show ?thesis by simp
qed

text \<open>
  C6, amended. Let \<open>h\<close> be the height the first cell of a row measures once the row's
  height override is removed, and the transforms of its cells when the first cell carries
  one; let \<open>d\<close> be the default row height and \<open>s\<close> the scroll offset. When
  \<open>adjustRowHeights\<close> returns, a row with index below the cursor has the height \<open>d\<close> and a
  row with index above the cursor the height \<open>h\<close>. The row at the cursor, when it measures
  more than \<open>d\<close> once the height \<open>h\<close> is applied to it, gets the height
  \<open>\<lfloor>h - (h - d) * (s / d - cursor)\<rfloor>\<close> with the division, the inner subtraction, the product
  and the outer subtraction each rounded to the nearest double, and every one of its cells
  is translated by that height minus \<open>h\<close>; when it measures at most \<open>d\<close> it keeps the
  height \<open>h\<close> and its cells stay untranslated. With \<open>h = 40\<close>, \<open>d = 20\<close>, \<open>s = 510\<close> and
  cursor 25 the height is 30 and the translation \<open>- 10\<close>.
\<close>

theorem adjustRowHeights_heights:
  assumes "adjustRowHeights surf s = Inr s'" and "i < length (rows s)"
  shows "let r = rows s ! i;
             r0 = r\<lparr> styleHeight := None,
                     cells := (if cellTransform (hd (cells r)) \<noteq> None
                               then map (\<lambda>c. c\<lparr> cellTransform := None \<rparr>) (cells r)
                               else cells r) \<rparr>;
             h = cellOffsetHeight surf r0;
             d = defaultRowHeight s;
             applied = \<lfloor>roundDouble (real_of_int h -
                          roundDouble (real_of_int (h - d) *
                            roundDouble (roundDouble (scrollTop s / real_of_int d) -
                                         real_of_int (rowCursor s))))\<rfloor>
         in cells r \<noteq> [] \<and>
            (index r < rowCursor s \<longrightarrow>
               styleHeight (rows s' ! i) = Some d \<and> cells (rows s' ! i) = cells r0) \<and>
            (rowCursor s < index r \<longrightarrow>
               styleHeight (rows s' ! i) = Some h \<and> cells (rows s' ! i) = cells r0) \<and>
            (index r = rowCursor s \<and> d < rowOffsetHeight surf (r0\<lparr> styleHeight := Some h \<rparr>) \<longrightarrow>
               styleHeight (rows s' ! i) = Some applied \<and>
               cells (rows s' ! i) =
                 map (\<lambda>c. c\<lparr> cellTransform := Some (applied - h) \<rparr>) (cells r0)) \<and>
            (index r = rowCursor s \<and> rowOffsetHeight surf (r0\<lparr> styleHeight := Some h \<rparr>) \<le> d \<longrightarrow>
               styleHeight (rows s' ! i) = Some h \<and> cells (rows s' ! i) = cells r0)"
proof -
  from adjustRowHeights_nth[OF assms] obtain r1 where
    a: "adjustRow surf (rowCursor s) (defaultRowHeight s) (scrollTop s) (rows s ! i) = Inr r1"
    and h: "styleHeight (rows s' ! i) = styleHeight r1" and c: "cells (rows s' ! i) = cells r1"
    by blast
  have ne: "cells (rows s ! i) \<noteq> []" using adjustRow_Inr[OF a] by simp
  show ?thesis
    using a ne unfolding h c adjustRow_unfold[OF ne] Let_def
    by (auto split: if_splits)
qed

theorem adjustRowHeights_heights_witness:
  "map index (rows (staleWindow 510)) = [24, 25, 26, 999] \<and>
   map styleHeight (rows (staleWindow 510)) = [Some 40, Some 37, Some 20, None] \<and>
   defaultRowHeight (staleWindow 510) = 20 \<and> scrollTop (staleWindow 510) = 510 \<and>
   rowCursor (staleWindow 510) = 25 \<and>
   (\<exists>s'. adjustRowHeights squeezedCells (staleWindow 510) = Inr s' \<and>
         styleHeight (rows s' ! 0) = Some 20 \<and>
         styleHeight (rows s' ! 1) = Some 30 \<and>
         map cellTransform (cells (rows s' ! 1)) = [Some (- 10), Some (- 10)] \<and>
         styleHeight (rows s' ! 2) = Some 40)"
proof -
  let ?s = "staleWindow 510"
  have g: "defaultRowHeight ?s = 20" "scrollTop ?s = 510" "rowCursor ?s = 25"
    "rows ?s = [(freshRow grid1000 1 24)\<lparr> styleHeight := Some 40 \<rparr>,
                  (freshRow grid1000 2 25)
                    \<lparr> cells := [\<lparr> cellTransform = Some (- 3) \<rparr>, \<lparr> cellTransform = Some (- 3) \<rparr>],
                      styleHeight := Some 37 \<rparr>,
                  (freshRow grid1000 3 26)\<lparr> styleHeight := Some 20 \<rparr>,
                  freshRow grid1000 0 999]"
    by (simp_all add: staleWindow_def RowsVirtualizer_def)
  have "\<exists>s'. adjustRowHeights squeezedCells ?s = Inr s'"
    by (rule adjustRowHeights_succeeds) (simp_all add: g grid1000_def RowsVirtualizer_def)
  then obtain s' where a: "adjustRowHeights squeezedCells ?s = Inr s'" by blast
  have 0: "styleHeight (rows s' ! 0) = Some 20"
    using adjustRowHeights_heights[OF a, of 0] by (simp add: g Let_def)
  have 1: "styleHeight (rows s' ! 1) = Some 30 \<and>
      map cellTransform (cells (rows s' ! 1)) = [Some (- 10), Some (- 10)]"
    using adjustRowHeights_heights[OF a, of 1]
    by (simp add: g Let_def squeezedCells_def tallRows_def roundDouble_510)
  have 2: "styleHeight (rows s' ! 2) = Some 40"
    using adjustRowHeights_heights[OF a, of 2]
    by (simp add: g Let_def squeezedCells_def tallRows_def)
  have "\<exists>s'. adjustRowHeights squeezedCells ?s = Inr s' \<and>
         styleHeight (rows s' ! 0) = Some 20 \<and>
         styleHeight (rows s' ! 1) = Some 30 \<and>
         map cellTransform (cells (rows s' ! 1)) = [Some (- 10), Some (- 10)] \<and>
         styleHeight (rows s' ! 2) = Some 40"
    using a 0 1 2 by (intro exI[of _ s']) simp
  then show ?thesis by (simp add: g)
qed

subsection \<open>Scroll-position correction\<close>

text \<open>
  C7. When \<open>scroll\<close> returns, the scroll offset of the body is at least the offset read at
  the start of the call: where the body reports a lower offset after the rows were rendered
  and reconciled, the offset is set back to the value read at the start; where it reports
  that value or a greater one, the reported offset stays.
\<close>

theorem scroll_restores_offset:
  assumes "scroll surf s = Inr s'"
  shows "scrollTop s \<le> scrollTop s' \<and>
         scrollTop s' =
           (if reportedScrollTop surf (rows s') (scrollTop s) < scrollTop s
            then scrollTop s
            else reportedScrollTop surf (rows s') (scrollTop s))"
proof -
  from assms obtain s2 where
    "s' = s2\<lparr> scrollTop := max (scrollTop s) (reportedScrollTop surf (rows s2) (scrollTop s)) \<rparr>"
    by (rule scroll_Inr)
  then show ?thesis by (simp add: max_def)
qed

theorem scroll_restores_offset_witness:
  "\<exists>s s'. reachable sinkingBody s \<and> scroll sinkingBody (s\<lparr> scrollTop := 510 \<rparr>) = Inr s' \<and>
           reportedScrollTop sinkingBody (rows s') 510 = 495 \<and> scrollTop s' = 510"
proof -
  have v: "viewportHeight sinkingBody = 200" by (simp add: sinkingBody_def tallRows_def)
  from scenario_rendered[OF v] obtain s where i: "initialRender sinkingBody grid1000 = Inr s"
    by blast
  have e: "rows grid1000 = []" "\<forall>i\<in>set (destroyed grid1000). i < nextId grid1000"
    by (simp_all add: grid1000_def RowsVirtualizer_def)
  note f = initialRender_effect[OF i e]
  have r: "reachable sinkingBody s" using i unfolding grid1000_def by (rule reachable.rendered)
  note g = scenario_geometry[OF f(3)[unfolded v]]
  let ?s = "s\<lparr> scrollTop := 510 \<rparr>"
  have "\<exists>s'. scroll sinkingBody ?s = Inr s'"
    by (rule scroll_total) (use f(1) g in \<open>simp_all add: rowsPerPage_def\<close>)
  then obtain s' where s: "scroll sinkingBody ?s = Inr s'" by blast
  from scroll_restores_offset[OF s] have "scrollTop s' = 510"
    by (simp add: sinkingBody_def)
  moreover have "reportedScrollTop sinkingBody (rows s') 510 = 495" by (simp add: sinkingBody_def)
  ultimately show ?thesis using r s by blast
qed

subsection \<open>The order of the steps of scroll\<close>

text \<open>
  C8, as the specification states it, is false: it has the heights reconciled before the
  cursor is updated. In the scenario scrolled to offset 510 the code gives the first handle
  of the window (row 23, above the new cursor 25) the default height 20; reconciling with
  the old cursor 0 would give it its measured height 40.
\<close>

theorem C8_counterexample:
  "resultFirstHeight (scroll tallRows (firstWindow\<lparr> scrollTop := 510 \<rparr>)) = Inr (Some 20) \<and>
   resultFirstHeight (scroll_as_specified tallRows (firstWindow\<lparr> scrollTop := 510 \<rparr>)) = Inr (Some 40)"
proof -
  let ?s = "firstWindow\<lparr> scrollTop := 510 \<rparr>"
  obtain s1 where r: "renderRows 25 ?s = Inr s1" and h1: "handlesInv s1"
    and g1: "sameGeometry (grid1000\<lparr> offsetHeight := 200 \<rparr>) s1"
    and c1: "rowCursor s1 = 0" and y1: "scrollTop s1 = 510"
    and hd1: "hd (rows s1) = freshRow grid1000 (nextId firstWindow) 23"
    by (rule scenario_510)
  note v = scenario_geometry[OF firstWindow(4)]
  note v1 = scenario_geometry[OF g1]
  have d: "defaultRowHeight ?s = 20" "rowCursor ?s = 0" "scrollTop ?s = 510"
    using v firstWindow(5) by simp_all
  have fl: "\<lfloor>(510 :: real) / 20\<rfloor> = (25 :: int)" by simp
  have ok: "\<exists>s2. adjustRowHeights tallRows t = Inr s2"
    if "handlesInv t" "columns t = 2" for t
    using that by (intro adjustRowHeights_succeeds handlesInv_cells) (simp_all add: handlesInv_def)
  \<comment> \<open>the code: the cursor is 25 when the heights are adjusted\<close>
  let ?t = "s1\<lparr> rowCursor := 25 \<rparr>"
  obtain s2 where a: "adjustRowHeights tallRows ?t = Inr s2"
    using ok[of ?t] h1 v1 by auto
  from adjustRowHeights_first[OF a] adjustRow_fresh_above[of 23 25 510 "nextId firstWindow"]
  have "resultFirstHeight (Inr s2) = Inr (Some 20)" by (auto simp: hd1 v1 y1)
  then have code: "resultFirstHeight (scroll tallRows ?s) = Inr (Some 20)"
    using r a by (simp add: scroll_def d fl Let_def resultFirstHeight_def)
  \<comment> \<open>the order of the specification: the cursor is still 0\<close>
  obtain s2' where a': "adjustRowHeights tallRows s1 = Inr s2'"
    using ok[of s1] h1 v1 by auto
  from adjustRowHeights_first[OF a'] adjustRow_fresh_below[of 0 23 510 "nextId firstWindow"]
  have "resultFirstHeight (Inr s2') = Inr (Some 40)" by (auto simp: hd1 v1 y1 c1)
  then have spec: "resultFirstHeight (scroll_as_specified tallRows ?s) = Inr (Some 40)"
    using r a' by (simp add: scroll_as_specified_def d fl Let_def resultFirstHeight_def)
  from code spec show ?thesis by simp
qed

text \<open>
  C8, amended. A \<open>scroll\<close> that returns leaves the cursor at
  \<open>newCursor = \<lfloor>scrollTop / defaultRowHeight\<rfloor>\<close>. When the stored cursor equals
  \<open>newCursor\<close>, \<open>renderRows\<close> is skipped and \<open>adjustRowHeights\<close> runs on the window as it
  is, whose handles and indices stay. When it differs, \<open>renderRows newCursor\<close> runs, then
  the cursor is set to \<open>newCursor\<close>, and then \<open>adjustRowHeights\<close> runs, on the state that
  already holds the new cursor.
\<close>

theorem scroll_order:
  assumes "scroll surf s = Inr s'"
  shows "rowCursor s' = \<lfloor>scrollTop s / real_of_int (defaultRowHeight s)\<rfloor> \<and>
         (rowCursor s = \<lfloor>scrollTop s / real_of_int (defaultRowHeight s)\<rfloor> \<longrightarrow>
            (\<exists>s2. adjustRowHeights surf s = Inr s2 \<and> rows s' = rows s2 \<and>
                  map rid (rows s') = map rid (rows s) \<and> map index (rows s') = map index (rows s))) \<and>
         (rowCursor s \<noteq> \<lfloor>scrollTop s / real_of_int (defaultRowHeight s)\<rfloor> \<longrightarrow>
            (\<exists>s1 s2. renderRows \<lfloor>scrollTop s / real_of_int (defaultRowHeight s)\<rfloor> s = Inr s1 \<and>
                     adjustRowHeights surf
                       (s1\<lparr> rowCursor := \<lfloor>scrollTop s / real_of_int (defaultRowHeight s)\<rfloor> \<rparr>) = Inr s2 \<and>
                     rows s' = rows s2))"
proof -
  let ?c = "\<lfloor>scrollTop s / real_of_int (defaultRowHeight s)\<rfloor>"
  from assms obtain s1 s2 where
    1: "if rowCursor s \<noteq> ?c then renderRows ?c s = Inr s1 else s1 = s"
    and 2: "adjustRowHeights surf (s1\<lparr> rowCursor := ?c \<rparr>) = Inr s2"
    and 3: "s' = s2\<lparr> scrollTop := max (scrollTop s) (reportedScrollTop surf (rows s2) (scrollTop s)) \<rparr>"
    by (rule scroll_Inr)
  have c: "rowCursor s' = ?c" using adjustRowHeights_geometry(2)[OF 2] by (simp add: 3)
  have r: "rows s' = rows s2" by (simp add: 3)
  have same: "\<exists>s2. adjustRowHeights surf s = Inr s2 \<and> rows s' = rows s2 \<and>
      map rid (rows s') = map rid (rows s) \<and> map index (rows s') = map index (rows s)"
    if e: "rowCursor s = ?c"
  proof -
    from 1 e have "s1 = s" by simp
    moreover have "s\<lparr> rowCursor := ?c \<rparr> = s" using e by simp
    ultimately have a: "adjustRowHeights surf s = Inr s2" using 2 by simp
    from adjustRowHeights_fields(2,3)[OF a] a r show ?thesis by auto
  qed
  have moved: "\<exists>s1 s2. renderRows ?c s = Inr s1 \<and>
      adjustRowHeights surf (s1\<lparr> rowCursor := ?c \<rparr>) = Inr s2 \<and> rows s' = rows s2"
    if "rowCursor s \<noteq> ?c"
    using 1 2 r that by auto
  from c same moved show ?thesis by blast
qed

theorem scroll_order_witness:
  "(\<exists>s'. scroll tallRows (firstWindow\<lparr> scrollTop := 5 \<rparr>) = Inr s' \<and> rowCursor s' = 0 \<and>
         map rid (rows s') = map rid (rows firstWindow)) \<and>
   (\<exists>s1 s2 s'. scroll tallRows (firstWindow\<lparr> scrollTop := 510 \<rparr>) = Inr s' \<and> rowCursor s' = 25 \<and>
         renderRows 25 (firstWindow\<lparr> scrollTop := 510 \<rparr>) = Inr s1 \<and>
         adjustRowHeights tallRows (s1\<lparr> rowCursor := 25 \<rparr>) = Inr s2 \<and> rows s' = rows s2)"
proof -
  note v = scenario_geometry[OF firstWindow(4)]
  obtain s5 where 5: "scroll tallRows (firstWindow\<lparr> scrollTop := 5 \<rparr>) = Inr s5"
    by (rule scenario_scrolled)
  obtain s510 where 510: "scroll tallRows (firstWindow\<lparr> scrollTop := 510 \<rparr>) = Inr s510"
    by (rule scenario_scrolled)
  have f5: "\<lfloor>scrollTop (firstWindow\<lparr> scrollTop := 5 \<rparr>) /
             real_of_int (defaultRowHeight (firstWindow\<lparr> scrollTop := 5 \<rparr>))\<rfloor> = 0"
    using v by simp
  have f510: "\<lfloor>scrollTop (firstWindow\<lparr> scrollTop := 510 \<rparr>) /
             real_of_int (defaultRowHeight (firstWindow\<lparr> scrollTop := 510 \<rparr>))\<rfloor> = 25"
    using v by simp
  have c: "rowCursor (firstWindow\<lparr> scrollTop := y \<rparr>) = 0" for y using firstWindow(5) by simp
  from scroll_order[OF 5] have a: "rowCursor s5 = 0 \<and> map rid (rows s5) = map rid (rows firstWindow)"
    unfolding f5 c by auto
  from scroll_order[OF 510] have b: "rowCursor s510 = 25 \<and>
      (\<exists>s1 s2. renderRows 25 (firstWindow\<lparr> scrollTop := 510 \<rparr>) = Inr s1 \<and>
         adjustRowHeights tallRows (s1\<lparr> rowCursor := 25 \<rparr>) = Inr s2 \<and> rows s510 = rows s2)"
    unfolding f510 c by auto
  from a b 5 510 show ?thesis by blast
qed

subsection \<open>A grid shorter than a page\<close>

text \<open>
  C9 does not hold of the code. With 5 rows and a page of 10 the lower bound of the range
  is \<open>5 - 10 = - 5\<close>, not 0: the outer minimum undoes the clamp at 0. The loop starts at
  the index \<open>- 5\<close>, which the row handle's constructor rejects.
\<close>

theorem renderRows_short_grid:
  "rowsPerPage (grid5\<lparr> offsetHeight := 200 \<rparr>) = 10 \<and>
   rangeFrom (grid5\<lparr> offsetHeight := 200 \<rparr>) 0 = - 5 \<and>
   initialRender tallRows grid5 = Inl OutOfRangeError"
proof -
  have p: "rowsPerPage (grid5\<lparr> offsetHeight := 200 \<rparr>) = 10"
    by (simp add: grid5_def RowsVirtualizer_def rowsPerPage_def)
  have f: "rangeFrom (grid5\<lparr> offsetHeight := 200 \<rparr>) 0 = - 5"
    by (simp add: rangeFrom_def p) (simp add: grid5_def RowsVirtualizer_def)
  have "renderRows 0 (grid5\<lparr> offsetHeight := 200 \<rparr>) = Inl OutOfRangeError"
    by (simp add: renderRows_def grid5_def RowsVirtualizer_def new_DataGridRow_def render_def
        rangeFrom_def rangeTo_def rowsPerPage_def destroy_def renderLoop.simps[of "- 5"])
  then have "initialRender tallRows grid5 = Inl OutOfRangeError"
    by (simp add: initialRender_def tallRows_def grid5_def RowsVirtualizer_def)
  with p f show ?thesis by simp
qed

subsection \<open>adjustRowHeights needs a row\<close>

text \<open>
  C10, as the specification states it, is false: on a window of one handle, which
  \<open>renderRows\<close> leaves for a grid of one row under a body one row high, the pass reads
  \<^verbatim>\<open>rows[rowsLn - 2]\<close>, that is the index \<open>- 1\<close>, outside the array.
\<close>

theorem C10_counterexample:
  "renderRows (rowCursor grid1) (grid1\<lparr> offsetHeight := viewportHeight lowBody \<rparr>) = Inr singleRow \<and>
   length (rows singleRow) = 1 \<and>
   fst (adjustRowHeightsReads lowBody singleRow) = [0, 0, 0, - 1]"
proof -
  have 1: "renderRows (rowCursor grid1) (grid1\<lparr> offsetHeight := viewportHeight lowBody \<rparr>) = Inr singleRow"
    by (simp add: renderRows_def grid1_def lowBody_def tallRows_def RowsVirtualizer_def
        new_DataGridRow_def render_def freshRow_def rangeFrom_def rangeTo_def rowsPerPage_def
        singleRow_def renderLoop.simps[of 0])
  have 2: "length (rows singleRow) = 1" by (simp add: singleRow_def)
  have r: "rows singleRow = [freshRow grid1 0 0]" by (simp add: singleRow_def)
  have a: "adjustRow lowBody (rowCursor singleRow) (defaultRowHeight singleRow) (scrollTop singleRow)
      (freshRow grid1 0 0) \<noteq> Inl e" for e
    using adjustRow_succeeds[of "freshRow grid1 0 0" "defaultRowHeight singleRow" lowBody
        "rowCursor singleRow" "scrollTop singleRow"]
    by (auto simp: grid1_def singleRow_def RowsVirtualizer_def)
  have 3: "fst (adjustRowHeightsReads lowBody singleRow) = [0, 0, 0, - 1]"
    using a
    by (simp add: adjustRowHeightsReads_def r arrayGet_def Let_def placeLastRead_def
        adjustFrom.simps[of _ _ _ _ _ 0] adjustFrom.simps[of _ _ _ _ _ "Suc 0"]
        translateFrom.simps[of _ _ _ "Suc 0"] split: sum.splits prod.splits)
  from 1 2 3 show ?thesis by simp
qed

text \<open>
  C10, amended. \<open>adjustRowHeights\<close> reads \<^verbatim>\<open>rows[0]\<close> before anything else. On an empty
  window that read is outside the array and the call fails there, and so does a \<open>scroll\<close>
  that finds the window empty and the cursor unchanged (it skips \<open>renderRows\<close>). On a
  non-empty window no read of a row fails, and every index read lies inside the array,
  but for the read of \<^verbatim>\<open>rows[rowsLn - 2]\<close> on a window of one handle, whose value is
  tested before it is used. The pass with its reads computes what \<open>adjustRowHeights\<close>
  computes.
\<close>

theorem adjustRowHeights_row_reads:
  "snd (adjustRowHeightsReads surf s) = adjustRowHeights surf s \<and>
   (rows s = [] \<longrightarrow> adjustRowHeightsReads surf s = ([0], Inl RowUndefined)) \<and>
   (rows s \<noteq> [] \<longrightarrow>
      adjustRowHeights surf s \<noteq> Inl RowUndefined \<and>
      (\<forall>j\<in>set (fst (adjustRowHeightsReads surf s)).
         (0 \<le> j \<and> j < int (length (rows s))) \<or> (j = - 1 \<and> length (rows s) = 1))) \<and>
   (rows s = [] \<and> defaultRowHeight s \<noteq> 0 \<and>
      \<lfloor>scrollTop s / real_of_int (defaultRowHeight s)\<rfloor> = rowCursor s \<longrightarrow>
      scroll surf s = Inl RowUndefined)"
proof (intro conjI impI)
  show "snd (adjustRowHeightsReads surf s) = adjustRowHeights surf s"
    by (rule adjustRowHeightsReads_outcome)
next
  assume "rows s = []"
  then show "adjustRowHeightsReads surf s = ([0], Inl RowUndefined)"
    by (simp add: adjustRowHeightsReads_def arrayGet_def)
next
  assume "rows s \<noteq> []"
  then show "adjustRowHeights surf s \<noteq> Inl RowUndefined"
    using adjustLoop_no_RowUndefined[of surf "rowCursor s" "defaultRowHeight s" "scrollTop s" "rows s"]
    by (cases "rows s") (auto simp: adjustRowHeights_def Let_def split: sum.splits)
next
  assume "rows s \<noteq> []"
  then show "\<forall>j\<in>set (fst (adjustRowHeightsReads surf s)).
         (0 \<le> j \<and> j < int (length (rows s))) \<or> (j = - 1 \<and> length (rows s) = 1)"
    by (rule adjustRowHeightsReads_reads)
next
  assume a: "rows s = [] \<and> defaultRowHeight s \<noteq> 0 \<and>
      \<lfloor>scrollTop s / real_of_int (defaultRowHeight s)\<rfloor> = rowCursor s"
  then have "s\<lparr> rowCursor := \<lfloor>scrollTop s / real_of_int (defaultRowHeight s)\<rfloor> \<rparr> = s" by simp
  then show "scroll surf s = Inl RowUndefined"
    using a by (simp add: scroll_def Let_def adjustRowHeights_def)
qed

theorem adjustRowHeights_row_reads_witness:
  "adjustRowHeightsReads tallRows grid1000 = ([0], Inl RowUndefined) \<and>
   adjustRowHeights tallRows grid1000 = Inl RowUndefined \<and>
   scroll tallRows grid1000 = Inl RowUndefined \<and>
   length (rows firstWindow) = 14 \<and>
   adjustRowHeights tallRows firstWindow \<noteq> Inl RowUndefined \<and>
   list_all (\<lambda>j. 0 \<le> j \<and> j < 14) (fst (adjustRowHeightsReads tallRows firstWindow))"
proof -
  have e: "rows grid1000 = []" "defaultRowHeight grid1000 \<noteq> 0"
    "\<lfloor>scrollTop grid1000 / real_of_int (defaultRowHeight grid1000)\<rfloor> = rowCursor grid1000"
    by (simp_all add: grid1000_def RowsVirtualizer_def)
  have "length (map index (rows firstWindow)) = 14" unfolding scenario_first_indices by simp
  then have l: "length (rows firstWindow) = 14" by simp
  then have n: "rows firstWindow \<noteq> []" by auto
  note a = adjustRowHeights_row_reads[of tallRows grid1000]
  note b = adjustRowHeights_row_reads[of tallRows firstWindow]
  from a e have 1: "adjustRowHeightsReads tallRows grid1000 = ([0], Inl RowUndefined)"
    and 2: "scroll tallRows grid1000 = Inl RowUndefined" by blast+
  from a 1 have 3: "adjustRowHeights tallRows grid1000 = Inl RowUndefined" by simp
  from b n have 4: "adjustRowHeights tallRows firstWindow \<noteq> Inl RowUndefined"
    and 5: "\<forall>j\<in>set (fst (adjustRowHeightsReads tallRows firstWindow)).
         (0 \<le> j \<and> j < int (length (rows firstWindow))) \<or> (j = - 1 \<and> length (rows firstWindow) = 1)"
    by blast+
  from 5 have 6: "list_all (\<lambda>j. 0 \<le> j \<and> j < 14) (fst (adjustRowHeightsReads tallRows firstWindow))"
    unfolding l by (simp add: list_all_iff)
  from 1 2 3 4 6 l show ?thesis by simp
qed

end
